theory Spec2Isabelle
  imports Main "HOL-Library.AList"
begin

text \<open>
  The round-resolution core of the herd game server: the answer normaliser, the round
  tally, the token rule, the win evaluation and the Socket.IO event handlers over the
  MongoDB store, embedded as functions, with the properties of the specification proved or
  refuted on them.
\<close>

section \<open>Data model\<close>

text \<open>
  The server keeps four MongoDB collections (Mongoose models \<^verbatim>\<open>Game\<close>, \<^verbatim>\<open>Player\<close>,
  \<^verbatim>\<open>Round\<close>, \<^verbatim>\<open>Answer\<close>).  A document identifier (\<^verbatim>\<open>_id\<close>, an ObjectId) is
  represented by its hexadecimal string, which is what \<^verbatim>\<open>toString()\<close> returns and what
  Mongoose stores in the \<^verbatim>\<open>String\<close> fields \<^verbatim>\<open>Answer.playerId\<close> and
  \<^verbatim>\<open>Game.pinkCowHolder\<close>.  A missing or \<^verbatim>\<open>null\<close> field is \<open>None\<close>.  Scores and counters
  are JavaScript numbers that only ever hold integers, modelled as \<open>int\<close>.
\<close>

type_synonym oid = string

datatype game_status = Waiting | InProgress | Completed

datatype round_status = CollectingAnswers | RoundDone

record game =
  g_id :: oid
  roomCode :: string
  hostId :: string
  status :: game_status
  currentRound :: int
  currentQuestion :: "string option"
  playersAnswered :: int
  pinkCowHolder :: "string option"
  usedQuestions :: "string option list"
  g_createdAt :: nat

record player =
  p_id :: oid
  p_gameId :: oid
  username :: string
  isHost :: bool
  score :: int
  isConnected :: bool
  socketId :: string

record round =
  r_id :: oid
  r_gameId :: oid
  roundNumber :: int
  r_status :: round_status
  r_majorityAnswer :: "string option"
  r_uniqueAnswerPlayer :: "string option"

record answer =
  a_gameId :: oid
  roundId :: oid
  playerId :: string
  a_username :: string
  originalAnswer :: string
  normalizedAnswer :: string

section \<open>Token rule: \<^verbatim>\<open>determinePinkCowHolder\<close> (gameLogic.js)\<close>

text \<open>
  JavaScript truthiness of a string-or-null value: \<^verbatim>\<open>null\<close>, \<^verbatim>\<open>undefined\<close> and the empty
  string are falsy, every other string is truthy.
\<close>

fun truthy :: "string option \<Rightarrow> bool" where
  "truthy None = False"
| "truthy (Some s) = (s \<noteq> [])"

text \<open>\<^verbatim>\<open>(x || '').toString()\<close>: the string itself when truthy, the empty string otherwise.\<close>

fun or_empty :: "string option \<Rightarrow> string" where
  "or_empty None = []"
| "or_empty (Some s) = s"

definition determinePinkCowHolder :: "string option \<Rightarrow> string option \<Rightarrow> string option" where
  "determinePinkCowHolder currentHolder uniqueAnswerPlayer =
     (if truthy uniqueAnswerPlayer \<and> or_empty uniqueAnswerPlayer \<noteq> or_empty currentHolder
      then Some (or_empty uniqueAnswerPlayer)
      else if truthy currentHolder then Some (or_empty currentHolder) else None)"

text \<open>A player identity is a non-empty string (an ObjectId prints as 24 hex digits).\<close>

fun wf_holder :: "string option \<Rightarrow> bool" where
  "wf_holder None = True"
| "wf_holder (Some s) = (s \<noteq> [])"

section \<open>Win evaluation\<close>

text \<open>
  Values that meet in a strict comparison \<^verbatim>\<open>!==\<close>.  Strict (in)equality never converts:
  operands of different types are unequal, strings compare by content, and an object is
  equal only to itself.  The handlers compare the \<^verbatim>\<open>_id\<close> object of a freshly loaded
  document with a string or \<^verbatim>\<open>null\<close>, never with the same object.
\<close>

datatype jsval = JNull | JString string | JObjectId oid

fun strict_eq :: "jsval \<Rightarrow> jsval \<Rightarrow> bool" where
  "strict_eq JNull JNull = True"
| "strict_eq (JString a) (JString b) = (a = b)"
| "strict_eq _ _ = False"

fun holder_val :: "string option \<Rightarrow> jsval" where
  "holder_val None = JNull"
| "holder_val (Some s) = JString s"

text \<open>
  \<^verbatim>\<open>checkWinCondition(player, pinkCowHolder)\<close> of gameLogic.js:
  \<^verbatim>\<open>player.score >= 8 && player._id !== pinkCowHolder\<close>, where \<^verbatim>\<open>player._id\<close> is the
  ObjectId of a Mongoose document and \<^verbatim>\<open>pinkCowHolder\<close> the string (or null) returned by
  \<^verbatim>\<open>determinePinkCowHolder\<close>.
\<close>

definition checkWinCondition :: "player \<Rightarrow> string option \<Rightarrow> bool" where
  "checkWinCondition p holder =
     (score p \<ge> 8 \<and> \<not> strict_eq (JObjectId (p_id p)) (holder_val holder))"

text \<open>
  \<^verbatim>\<open>Array.prototype.reduce\<close> without an initial value, on a non-empty array: the first
  element starts the accumulator and the callback runs on the others, left to right.
\<close>

fun reduce1 :: "('a \<Rightarrow> 'a \<Rightarrow> 'a) \<Rightarrow> 'a list \<Rightarrow> 'a option" where
  "reduce1 f [] = None"
| "reduce1 f (x # xs) = Some (foldl f x xs)"

text \<open>The callback \<^verbatim>\<open>(prev, current) => (prev.score > current.score) ? prev : current\<close>.\<close>

definition higher :: "player \<Rightarrow> player \<Rightarrow> player" where
  "higher prev current = (if score prev > score current then prev else current)"

text \<open>
  The winner search of the \<^verbatim>\<open>submit_answer\<close> handler that increments the counter
  atomically (unnamed/part_000, lines 304-322): the players with at least 8 points, of
  those the ones whose \<^verbatim>\<open>_id.toString()\<close> differs from the new token holder, and of
  those the result of the \<^verbatim>\<open>reduce\<close>.
\<close>

definition potentialWinners :: "player list \<Rightarrow> string option \<Rightarrow> player list" where
  "potentialWinners updatedPlayers newPinkCowHolder =
     filter (\<lambda>p. \<not> strict_eq (JString (p_id p)) (holder_val newPinkCowHolder))
       (filter (\<lambda>p. score p \<ge> 8) updatedPlayers)"

definition find_winner :: "player list \<Rightarrow> string option \<Rightarrow> player option" where
  "find_winner updatedPlayers newPinkCowHolder =
     (let pw = potentialWinners updatedPlayers newPinkCowHolder
      in if length pw > 0 then reduce1 higher pw else None)"

text \<open>
  The winner search of the older handler (unnamed/part_001, line 272):
  \<^verbatim>\<open>updatedPlayers.find(p => checkWinCondition(p, newPinkCowHolder))\<close>.
\<close>

definition find_winner_v1 :: "player list \<Rightarrow> string option \<Rightarrow> player option" where
  "find_winner_v1 updatedPlayers newPinkCowHolder =
     find (\<lambda>p. checkWinCondition p newPinkCowHolder) updatedPlayers"

text \<open>
  The win evaluator as the specification words it: the eligible players are those with
  score at least 8 that are not the token holder; the winner is the highest-scoring
  eligible player, the first one in iteration order among equals.
\<close>

definition eligible :: "player list \<Rightarrow> string option \<Rightarrow> player list" where
  "eligible ps holder = filter (\<lambda>p. score p \<ge> 8 \<and> Some (p_id p) \<noteq> holder) ps"

fun first_max :: "player list \<Rightarrow> player option" where
  "first_max [] = None"
| "first_max (p # ps) =
     (case first_max ps of
        None \<Rightarrow> Some p
      | Some q \<Rightarrow> if score q > score p then Some q else Some p)"

definition spec_evaluate :: "player list \<Rightarrow> string option \<Rightarrow> player option" where
  "spec_evaluate ps holder = first_max (eligible ps holder)"

section \<open>Round tally: \<^verbatim>\<open>analyzeRoundAnswers\<close> (gameLogic.js)\<close>

text \<open>
  \<^verbatim>\<open>answerCounts\<close> is a plain JavaScript object used as a dictionary.  Its own properties
  are kept as an association list.  (JavaScript enumerates integer-like keys before the
  others; the tally only tests membership and the length of the filtered entries and
  indexes a filtered list only when it has one element, so the order of enumeration does not
  reach the result.)  A property value is a number or, after the accident described below,
  a string that is not a number.
\<close>

datatype count = Num nat | NotANumber

type_synonym counts = "(string \<times> count) list"

text \<open>
  Reading \<^verbatim>\<open>answerCounts[k]\<close> for a key that is not an own property falls through to
  \<^verbatim>\<open>Object.prototype\<close>.  These are the names that \<^verbatim>\<open>Object.prototype\<close> defines as
  functions; \<^verbatim>\<open>__proto__\<close> is an accessor that returns \<^verbatim>\<open>Object.prototype\<close> itself.
\<close>

definition prototype_functions :: "string list" where
  "prototype_functions =
     [''constructor'', ''hasOwnProperty'', ''isPrototypeOf'', ''propertyIsEnumerable'',
      ''toLocaleString'', ''toString'', ''valueOf'', ''__defineGetter__'',
      ''__defineSetter__'', ''__lookupGetter__'', ''__lookupSetter__'']"

text \<open>
  One step of the counting loop,
  \<^verbatim>\<open>answerCounts[normalized] = (answerCounts[normalized] || 0) + 1\<close>:
  \<^item> an own numeric property \<open>n\<close> becomes \<open>n + 1\<close> (\<open>0\<close> is falsy and gives \<open>0 + 1\<close> as well);
  \<^item> an own string property is truthy and \<^verbatim>\<open>+ 1\<close> appends \<^verbatim>\<open>"1"\<close> to it: still a string;
  \<^item> an inherited function is truthy, \<^verbatim>\<open>f + 1\<close> is the string of its source text followed
    by \<^verbatim>\<open>"1"\<close>, and the assignment creates an own property holding that string;
  \<^item> for \<^verbatim>\<open>__proto__\<close> the read gives an object, the sum a string, and assigning a
    string to \<^verbatim>\<open>__proto__\<close> is ignored: no own property appears;
  \<^item> any other absent key reads \<^verbatim>\<open>undefined\<close> and is set to \<open>1\<close>.
\<close>

definition bump :: "counts \<Rightarrow> string \<Rightarrow> counts" where
  "bump answerCounts k =
     (case map_of answerCounts k of
        Some (Num n) \<Rightarrow> AList.update k (Num (n + 1)) answerCounts
      | Some NotANumber \<Rightarrow> AList.update k NotANumber answerCounts
      | None \<Rightarrow>
          if k = ''__proto__'' then answerCounts
          else if k \<in> set prototype_functions then AList.update k NotANumber answerCounts
          else AList.update k (Num 1) answerCounts)"

fun num_of :: "count \<Rightarrow> nat option" where
  "num_of (Num n) = Some n"
| "num_of NotANumber = None"

text \<open>
  \<^verbatim>\<open>Math.max(...Object.values(answerCounts))\<close>: \<^verbatim>\<open>NaN\<close> as soon as one value is not a
  number, \<^verbatim>\<open>-Infinity\<close> for no value at all, the largest value otherwise.  No property value
  is strictly equal to \<^verbatim>\<open>NaN\<close> or \<^verbatim>\<open>-Infinity\<close>, so both are \<open>None\<close> here.
\<close>

definition math_max :: "count list \<Rightarrow> nat option" where
  "math_max vs =
     (case those (map num_of vs) of
        None \<Rightarrow> None
      | Some [] \<Rightarrow> None
      | Some (n # ns) \<Rightarrow> Some (fold max ns n))"

text \<open>\<^verbatim>\<open>count === maxCount\<close> and \<^verbatim>\<open>count === 1\<close>.\<close>

definition is_count :: "nat option \<Rightarrow> count \<Rightarrow> bool" where
  "is_count m c = (case c of Num n \<Rightarrow> m = Some n | NotANumber \<Rightarrow> False)"

record tally =
  majorityAnswer :: "string option"
  uniqueAnswerPlayer :: "string option"
  scoringPlayers :: "string list"
  allAnswers :: "(string \<times> string \<times> string) list"

definition count_answers :: "answer list \<Rightarrow> counts" where
  "count_answers answers = foldl bump [] (map normalizedAnswer answers)"

definition analyze :: "answer list \<Rightarrow> tally" where
  "analyze answers =
     (let answerCounts = count_answers answers;
          maxCount = math_max (map snd answerCounts);
          majorityAnswers = map fst (filter (\<lambda>(_, c). is_count maxCount c) answerCounts);
          uniqueAnswers = map fst (filter (\<lambda>(_, c). is_count (Some 1) c) answerCounts);
          uniquePlayers =
            (if length uniqueAnswers = 1
             then map_option playerId
                    (find (\<lambda>a. normalizedAnswer a \<in> set uniqueAnswers) answers)
             else None);
          scoring =
            (if length majorityAnswers = 1
             then map playerId
                    (filter (\<lambda>a. normalizedAnswer a = hd majorityAnswers) answers)
             else [])
      in \<lparr> majorityAnswer = (if length majorityAnswers = 1 then Some (hd majorityAnswers) else None),
           uniqueAnswerPlayer = uniquePlayers,
           scoringPlayers = scoring,
           allAnswers = map (\<lambda>a. (playerId a, a_username a, originalAnswer a)) answers \<rparr>)"

text \<open>
  \<^verbatim>\<open>analyzeRoundAnswers(roundId)\<close>: the answers of the round are read from the collection;
  with no answer the result is \<^verbatim>\<open>null\<close>.
\<close>

definition analyzeRoundAnswers :: "oid \<Rightarrow> answer list \<Rightarrow> tally option" where
  "analyzeRoundAnswers rid collection =
     (let answers = filter (\<lambda>a. roundId a = rid) collection
      in if length answers = 0 then None else Some (analyze answers))"

text \<open>
  The tally as the specification words it.  The group of a canonical text is the answers
  that carry it; the majority answer is the canonical text whose group is largest when only
  one text has a group of that size; the scoring players are the players of that group;
  the unique answerer is the player of the only group of size 1 when there is exactly one
  such group.
\<close>

definition group_size :: "answer list \<Rightarrow> string \<Rightarrow> nat" where
  "group_size answers t = length (filter (\<lambda>a. normalizedAnswer a = t) answers)"

definition canonical_texts :: "answer list \<Rightarrow> string list" where
  "canonical_texts answers = remdups (map normalizedAnswer answers)"

definition top_texts :: "answer list \<Rightarrow> string list" where
  "top_texts answers =
     (let highest = fold max (map (group_size answers) (canonical_texts answers)) 0
      in filter (\<lambda>t. group_size answers t = highest) (canonical_texts answers))"

definition spec_majorityAnswer :: "answer list \<Rightarrow> string option" where
  "spec_majorityAnswer answers =
     (case top_texts answers of [t] \<Rightarrow> Some t | _ \<Rightarrow> None)"

definition spec_scoringPlayers :: "answer list \<Rightarrow> string list" where
  "spec_scoringPlayers answers =
     (case spec_majorityAnswer answers of
        None \<Rightarrow> []
      | Some t \<Rightarrow> map playerId (filter (\<lambda>a. normalizedAnswer a = t) answers))"

definition spec_uniqueAnswerer :: "answer list \<Rightarrow> string option" where
  "spec_uniqueAnswerer answers =
     (case filter (\<lambda>t. group_size answers t = 1) (canonical_texts answers) of
        [t] \<Rightarrow> map_option playerId (find (\<lambda>a. normalizedAnswer a = t) answers)
      | _ \<Rightarrow> None)"

text \<open>
  Answers none of whose canonical text is a name that a plain object inherits, and the
  number kept under a key of \<^verbatim>\<open>answerCounts\<close> (0 for a key that is absent or holds a
  string).
\<close>

definition plain_keys :: "answer list \<Rightarrow> bool" where
  "plain_keys xs =
     list_all (\<lambda>a. normalizedAnswer a \<notin> set (''__proto__'' # prototype_functions)) xs"

definition kept :: "counts \<Rightarrow> string \<Rightarrow> nat" where
  "kept r k = (case map_of r k of Some (Num n) \<Rightarrow> n | _ \<Rightarrow> 0)"

section \<open>Answer normaliser: \<^verbatim>\<open>normalizeAnswer\<close> (answerNormalizer.js)\<close>

text \<open>
  A character stands for the UTF-16 code unit of the same value, so the model covers the
  strings whose code units are below 256.  On these, \<^verbatim>\<open>toLowerCase\<close> maps \<open>A\<close>-\<open>Z\<close> and
  the capital letters U+00C0-U+00DE (without the multiplication sign U+00D7) to the
  code unit 32 above; \<^verbatim>\<open>\s\<close> and \<^verbatim>\<open>trim\<close> treat tab, line feed, vertical tab, form
  feed, carriage return, space and the no-break space U+00A0 as white space; \<^verbatim>\<open>\b\<close>
  separates a word character \<^verbatim>\<open>[A-Za-z0-9_]\<close> from any other.
\<close>

definition is_upper :: "char \<Rightarrow> bool" where
  "is_upper c = (let n = (of_char c :: nat)
                 in (65 \<le> n \<and> n \<le> 90) \<or> (192 \<le> n \<and> n \<le> 222 \<and> n \<noteq> 215))"

definition to_lower :: "char \<Rightarrow> char" where
  "to_lower c = (if is_upper c then char_of ((of_char c :: nat) + 32) else c)"

definition is_space :: "char \<Rightarrow> bool" where
  "is_space c = ((of_char c :: nat) \<in> {9, 10, 11, 12, 13, 32, 160})"

definition is_punct :: "char \<Rightarrow> bool" where
  "is_punct c = (c \<in> set ''.,/#!$%^&*;:{}=-_`~()'')"

definition is_word :: "char \<Rightarrow> bool" where
  "is_word c = (let n = (of_char c :: nat)
                in (48 \<le> n \<and> n \<le> 57) \<or> (65 \<le> n \<and> n \<le> 90) \<or> n = 95
                   \<or> (97 \<le> n \<and> n \<le> 122))"

definition toLowerCase :: "string \<Rightarrow> string" where
  "toLowerCase s = map to_lower s"

definition trim :: "string \<Rightarrow> string" where
  "trim s = rev (dropWhile is_space (rev (dropWhile is_space s)))"

text \<open>\<^verbatim>\<open>.replace(/\s+/g, ' ')\<close>: every maximal run of white space becomes one space.\<close>

function collapse_spaces :: "string \<Rightarrow> string" where
  "collapse_spaces [] = []"
| "collapse_spaces (c # cs) =
     (if is_space c then CHR '' '' # collapse_spaces (dropWhile is_space cs)
      else c # collapse_spaces cs)"
  by pat_completeness auto
termination
  by (relation "measure length") (auto simp: length_dropWhile_le less_Suc_eq_le)

text \<open>\<^verbatim>\<open>.replace(/[.,/#!$%^&*;:{}=\-_`~()]/g, '')\<close>.\<close>

definition remove_punctuation :: "string \<Rightarrow> string" where
  "remove_punctuation s = filter (\<lambda>c. \<not> is_punct c) s"

text \<open>
  \<^verbatim>\<open>.replace(/s$/i, '')\<close>: without the \<^verbatim>\<open>m\<close> flag \<^verbatim>\<open>$\<close> is the end of the input, so at
  most the last character goes, when it is \<open>s\<close> or \<open>S\<close>.
\<close>

definition strip_plural :: "string \<Rightarrow> string" where
  "strip_plural s =
     (if s \<noteq> [] \<and> (last s = CHR ''s'' \<or> last s = CHR ''S'') then butlast s else s)"

text \<open>
  \<^verbatim>\<open>.replace(/\b(a|an|the)\b/g, '')\<close>.  A match starts and ends at a word boundary and
  consists of word characters, so it is a whole maximal run of word characters; the scan
  goes left to right, deleting each run that reads \<open>a\<close>, \<open>an\<close> or \<open>the\<close> and copying
  everything else.
\<close>

definition keep_word :: "string \<Rightarrow> string" where
  "keep_word w = (if w \<in> {''a'', ''an'', ''the''} then [] else w)"

function remove_articles :: "string \<Rightarrow> string" where
  "remove_articles [] = []"
| "remove_articles (c # cs) =
     (if is_word c
      then keep_word (takeWhile is_word (c # cs)) @ remove_articles (dropWhile is_word cs)
      else c # remove_articles cs)"
  by pat_completeness auto
termination
  by (relation "measure length") (auto simp: length_dropWhile_le less_Suc_eq_le)

text \<open>\<^verbatim>\<open>if (!answer) return ''\<close> covers the empty string; then the chain of calls.\<close>

definition normalizeAnswer :: "string \<Rightarrow> string" where
  "normalizeAnswer answer =
     (if answer = [] then []
      else trim (remove_articles (strip_plural (remove_punctuation
             (collapse_spaces (trim (toLowerCase answer)))))))"

definition ends_in_s :: "string \<Rightarrow> bool" where
  "ends_in_s s = (s \<noteq> [] \<and> last s = CHR ''s'')"

fun double_space :: "string \<Rightarrow> bool" where
  "double_space (a # b # cs) = ((a = CHR '' '' \<and> b = CHR '' '') \<or> double_space (b # cs))"
| "double_space _ = False"

section \<open>The shape of a normalised answer\<close>

text \<open>A string that neither starts nor ends with white space.\<close>

definition trimmed :: "string \<Rightarrow> bool" where
  "trimmed s = (s = [] \<or> (\<not> is_space (hd s) \<and> \<not> is_space (last s)))"

text \<open>
  What every result of the normaliser looks like: lower case, no punctuation, no white
  space but the space character, trimmed, and no article left as a word.
\<close>

definition normal_form :: "string \<Rightarrow> bool" where
  "normal_form y =
     ((\<forall>c\<in>set y. to_lower c = c \<and> \<not> is_punct c \<and> (is_space c \<longrightarrow> c = CHR '' ''))
      \<and> trimmed y \<and> remove_articles y = y)"

section \<open>The store and the messages\<close>

text \<open>
  The four collections, each in insertion order, and the pairs (socket, room) that the
  handlers register with \<^verbatim>\<open>socket.join\<close>.  (Socket.IO drops a closed socket from its
  rooms by itself; no handler reads the membership, which only routes broadcasts.)  An
  \<^verbatim>\<open>Answer\<close> document's own \<^verbatim>\<open>_id\<close> and the timestamps of rounds and answers are never
  read by the server and are left out.
\<close>

record db =
  games :: "game list"
  players :: "player list"
  rounds :: "round list"
  answers :: "answer list"
  joined :: "(string \<times> string) list"

definition empty_db :: db where
  "empty_db = \<lparr>games = [], players = [], rounds = [], answers = [], joined = []\<rparr>"

datatype message =
    ErrorMsg string
  | GameCreated oid string string
  | GameJoined oid oid int "string option" game_status "string option" int "tally option"
  | PlayersUpdated "player list"
  | GameStarted game "player list" round
  | PlayerAnswered int int
  | PlayerAnsweredV1 string int
  | RoundCompleted tally "string option" "player list"
  | RoundCompletedV1 tally "player list" "string option" "player option"
  | GameCompleted player
  | NextRound int "string option"
  | GameRejoined oid oid string int "string option" "player list" "string option" int
  | ReconnectFailed string

text \<open>\<^verbatim>\<open>socket.emit\<close> answers the sender, \<^verbatim>\<open>io.to(roomCode).emit\<close> broadcasts to a room.\<close>

datatype target = ToSocket string | ToRoom string

type_synonym emitted = "(target \<times> message) list"

text \<open>An update of the first document that matches (\<^verbatim>\<open>findOneAndUpdate\<close>, \<^verbatim>\<open>save\<close>).\<close>

fun update_first :: "('a \<Rightarrow> bool) \<Rightarrow> ('a \<Rightarrow> 'a) \<Rightarrow> 'a list \<Rightarrow> 'a list" where
  "update_first P f [] = []"
| "update_first P f (x # xs) = (if P x then f x # xs else x # update_first P f xs)"

text \<open>
  Saving a new document.  Mongoose validates first: a \<^verbatim>\<open>required\<close> string must be
  present and non-empty.  MongoDB then rejects a duplicate \<^verbatim>\<open>_id\<close> and a duplicate key of
  a unique index: \<^verbatim>\<open>roomCode\<close> for games, \<^verbatim>\<open>(gameId, username)\<close> for players,
  \<^verbatim>\<open>(gameId, roundNumber)\<close> for rounds, \<^verbatim>\<open>(roundId, playerId)\<close> for answers.  \<open>None\<close> is
  the exception thrown by \<^verbatim>\<open>save()\<close>.
\<close>

definition insert_game :: "game \<Rightarrow> db \<Rightarrow> db option" where
  "insert_game g d =
     (if roomCode g = [] \<or> hostId g = [] then None
      else if g_id g \<in> set (map g_id (games d)) \<or> roomCode g \<in> set (map roomCode (games d))
      then None
      else Some (d\<lparr>games := games d @ [g]\<rparr>))"

definition insert_player :: "player \<Rightarrow> db \<Rightarrow> db option" where
  "insert_player p d =
     (if username p = [] then None
      else if p_id p \<in> set (map p_id (players d))
              \<or> (p_gameId p, username p) \<in> set (map (\<lambda>q. (p_gameId q, username q)) (players d))
      then None
      else Some (d\<lparr>players := players d @ [p]\<rparr>))"

definition insert_round :: "round \<Rightarrow> db \<Rightarrow> db option" where
  "insert_round r d =
     (if r_id r \<in> set (map r_id (rounds d))
         \<or> (r_gameId r, roundNumber r) \<in> set (map (\<lambda>q. (r_gameId q, roundNumber q)) (rounds d))
      then None
      else Some (d\<lparr>rounds := rounds d @ [r]\<rparr>))"

definition insert_answer :: "answer \<Rightarrow> db \<Rightarrow> db option" where
  "insert_answer a d =
     (if playerId a = [] \<or> a_username a = [] \<or> originalAnswer a = [] \<or> normalizedAnswer a = []
      then None
      else if (roundId a, playerId a) \<in> set (map (\<lambda>b. (roundId b, playerId b)) (answers d))
      then None
      else Some (d\<lparr>answers := answers d @ [a]\<rparr>))"

definition players_of :: "oid \<Rightarrow> db \<Rightarrow> player list" where
  "players_of gid d = filter (\<lambda>p. p_gameId p = gid) (players d)"

definition to_sender :: "string \<Rightarrow> string \<Rightarrow> emitted" where
  "to_sender sock msg = [(ToSocket sock, ErrorMsg msg)]"

section \<open>Prompt selection and room codes\<close>

text \<open>
  \<^verbatim>\<open>Math.random\<close> is an input of the model: \<open>rnd n\<close> is the value of
  \<^verbatim>\<open>Math.floor(Math.random() * n)\<close> at the call.  The catalogue
  \<^verbatim>\<open>PREDEFINED_QUESTIONS\<close> (constants.js) is a parameter.  Indexing past the end of an
  array gives \<^verbatim>\<open>undefined\<close>, here \<open>None\<close>.
\<close>

definition at_index :: "'a list \<Rightarrow> nat \<Rightarrow> 'a option" where
  "at_index xs i = (if i < length xs then Some (xs ! i) else None)"

definition getRandomQuestion ::
  "string list \<Rightarrow> (nat \<Rightarrow> nat) \<Rightarrow> string option list \<Rightarrow> string option" where
  "getRandomQuestion questions rnd used =
     (let availableQuestions = filter (\<lambda>q. Some q \<notin> set used) questions
      in if length availableQuestions = 0
         then at_index questions (rnd (length questions))
         else at_index availableQuestions (rnd (length availableQuestions)))"

text \<open>
  \<^verbatim>\<open>Game.generateRoomCode\<close> draws six-character codes until one is not in use.  The
  successive draws are the list \<open>draws\<close>; \<open>None\<close> means that every draw of the list was
  taken, the loop would go on drawing.
\<close>

definition generateRoomCode :: "string list \<Rightarrow> db \<Rightarrow> string option" where
  "generateRoomCode draws d = find (\<lambda>c. c \<notin> set (map roomCode (games d))) draws"

section \<open>The event handlers\<close>

text \<open>
  Every handler is a function from the store to the new store and the messages it emits.
  \<open>sock\<close> is \<^verbatim>\<open>socket.id\<close> of the sending connection.  An exception inside the
  \<^verbatim>\<open>try\<close> block leaves the store as it was when the exception was thrown and emits the
  message of the \<^verbatim>\<open>catch\<close> block.  The identifier of a new document is chosen by the
  driver and is an argument of the handler.  Identifiers sent by a client are taken to be
  well-formed ObjectId strings (Mongoose throws on any other, where the model finds nothing).  Unless said otherwise the definitions follow
  unnamed/part_000; unnamed/part_001 has the same text for \<^verbatim>\<open>join_game\<close>,
  \<^verbatim>\<open>start_game\<close>, \<^verbatim>\<open>next_round\<close>, \<^verbatim>\<open>remove_player\<close> and \<^verbatim>\<open>disconnect\<close>.
\<close>

subsection \<open>\<^verbatim>\<open>create_game\<close>\<close>

definition new_game :: "oid \<Rightarrow> string \<Rightarrow> string \<Rightarrow> nat \<Rightarrow> game" where
  "new_game gid code sock now =
     \<lparr>g_id = gid, roomCode = code, hostId = sock, status = Waiting, currentRound = 0,
      currentQuestion = None, playersAnswered = 0, pinkCowHolder = None, usedQuestions = [],
      g_createdAt = now\<rparr>"

definition new_player :: "oid \<Rightarrow> oid \<Rightarrow> string \<Rightarrow> bool \<Rightarrow> string \<Rightarrow> player" where
  "new_player pid gid name host sock =
     \<lparr>p_id = pid, p_gameId = gid, username = name, isHost = host, score = 0,
      isConnected = True, socketId = sock\<rparr>"

text \<open>
  \<open>v1\<close> selects the payload of unnamed/part_001, which reports \<^verbatim>\<open>socket.id\<close> as the
  player identifier where unnamed/part_000 reports \<^verbatim>\<open>host._id\<close>.
\<close>

definition create_game ::
  "bool \<Rightarrow> string \<Rightarrow> string \<Rightarrow> string list \<Rightarrow> oid \<Rightarrow> oid \<Rightarrow> nat \<Rightarrow> db \<Rightarrow> (db \<times> emitted) option" where
  "create_game v1 sock name draws gid pid now d =
     (case generateRoomCode draws d of
        None \<Rightarrow> None
      | Some code \<Rightarrow>
          Some (case insert_game (new_game gid code sock now) d of
                  None \<Rightarrow> (d, to_sender sock ''Failed to create game'')
                | Some d1 \<Rightarrow>
                    (case insert_player (new_player pid gid name True sock) d1 of
                       None \<Rightarrow> (d1, to_sender sock ''Failed to create game'')
                     | Some d2 \<Rightarrow>
                         (d2\<lparr>joined := joined d2 @ [(sock, code)]\<rparr>,
                          [(ToSocket sock, GameCreated gid code (if v1 then sock else pid))]))))"

subsection \<open>\<^verbatim>\<open>join_game\<close>\<close>

definition find_round :: "oid \<Rightarrow> int \<Rightarrow> db \<Rightarrow> round option" where
  "find_round gid n d = find (\<lambda>r. r_gameId r = gid \<and> roundNumber r = n) (rounds d)"

definition join_game :: "string \<Rightarrow> string \<Rightarrow> string \<Rightarrow> oid \<Rightarrow> db \<Rightarrow> db \<times> emitted" where
  "join_game sock code name pid d =
     (case find (\<lambda>g. roomCode g = code) (games d) of
        None \<Rightarrow> (d, to_sender sock ''Game not found'')
      | Some gm \<Rightarrow>
          (let existing = find (\<lambda>p. p_gameId p = g_id gm \<and> username p = name) (players d)
           in if status gm \<noteq> Waiting \<and> existing = None
              then (d, to_sender sock ''Game already in progress'')
              else
                (case (case existing of
                         Some p \<Rightarrow>
                           Some (p_id p,
                                 d\<lparr>players := update_first (\<lambda>q. p_id q = p_id p)
                                      (\<lambda>q. q\<lparr>socketId := sock, isConnected := True\<rparr>) (players d)\<rparr>)
                       | None \<Rightarrow>
                           map_option (\<lambda>d1. (pid, d1))
                             (insert_player (new_player pid (g_id gm) name False sock) d)) of
                   None \<Rightarrow> (d, to_sender sock ''Failed to join game'')
                 | Some (the_id, d1) \<Rightarrow>
                     (let d2 = d1\<lparr>joined := joined d1 @ [(sock, code)]\<rparr>;
                          roundResults =
                            (case find_round (g_id gm) (currentRound gm) d2 of
                               None \<Rightarrow> None
                             | Some r \<Rightarrow> if r_status r = RoundDone
                                         then analyzeRoundAnswers (r_id r) (answers d2) else None)
                      in (d2,
                          [(ToSocket sock,
                            GameJoined (g_id gm) the_id (currentRound gm) (currentQuestion gm)
                              (status gm) (pinkCowHolder gm) (playersAnswered gm) roundResults),
                           (ToRoom code, PlayersUpdated (players_of (g_id gm) d2))])))))"

subsection \<open>\<^verbatim>\<open>start_game\<close>\<close>

definition new_round :: "oid \<Rightarrow> oid \<Rightarrow> int \<Rightarrow> round" where
  "new_round rid gid n =
     \<lparr>r_id = rid, r_gameId = gid, roundNumber = n, r_status = CollectingAnswers,
      r_majorityAnswer = None, r_uniqueAnswerPlayer = None\<rparr>"

definition start_game ::
  "string list \<Rightarrow> (nat \<Rightarrow> nat) \<Rightarrow> string \<Rightarrow> oid \<Rightarrow> oid \<Rightarrow> db \<Rightarrow> db \<times> emitted" where
  "start_game questions rnd sock gameId rid d =
     (case find (\<lambda>g. g_id g = gameId) (games d) of
        None \<Rightarrow> (d, to_sender sock ''Game not found'')
      | Some gm \<Rightarrow>
          if hostId gm \<noteq> sock then (d, to_sender sock ''Only host can start the game'')
          else
            (let firstQuestion = getRandomQuestion questions rnd [];
                 started = (\<lambda>g. g\<lparr>status := InProgress, currentRound := 1,
                                    currentQuestion := firstQuestion,
                                    usedQuestions := [firstQuestion]\<rparr>);
                 d1 = d\<lparr>games := update_first (\<lambda>g. g_id g = gameId) started (games d)\<rparr>
             in case insert_round (new_round rid gameId 1) d1 of
                  None \<Rightarrow> (d1, to_sender sock ''Failed to start game'')
                | Some d2 \<Rightarrow>
                    (d2, [(ToRoom (roomCode gm),
                           GameStarted (started gm) (players_of gameId d2)
                             (new_round rid gameId 1))])))"

subsection \<open>\<^verbatim>\<open>submit_answer\<close>, unnamed/part_000\<close>

definition new_answer :: "oid \<Rightarrow> round \<Rightarrow> player \<Rightarrow> string \<Rightarrow> answer" where
  "new_answer gameId r p text =
     \<lparr>a_gameId = gameId, roundId = r_id r, playerId = p_id p, a_username = username p,
      originalAnswer = text, normalizedAnswer = normalizeAnswer text\<rparr>"

definition connected_count :: "oid \<Rightarrow> db \<Rightarrow> int" where
  "connected_count gameId d =
     int (length (filter (\<lambda>p. p_gameId p = gameId \<and> isConnected p) (players d)))"

text \<open>
  The inner \<^verbatim>\<open>try\<close> block (lines 270-326): tally, token rule, scoring with
  \<^verbatim>\<open>updateMany\<close>, reset of the counter, broadcast, winner search.  \<open>gm\<close> is the document
  returned by the atomic increment.  With no answer in the round the tally is \<^verbatim>\<open>null\<close>
  and reading \<^verbatim>\<open>results.uniqueAnswerPlayer\<close> throws.
\<close>

definition close_round :: "string \<Rightarrow> oid \<Rightarrow> game \<Rightarrow> round \<Rightarrow> db \<Rightarrow> db \<times> emitted" where
  "close_round sock gameId gm r d =
     (case analyzeRoundAnswers (r_id r) (answers d) of
        None \<Rightarrow> (d, to_sender sock ''Error completing round'')
      | Some results \<Rightarrow>
          (let newPinkCowHolder =
                 determinePinkCowHolder (pinkCowHolder gm) (uniqueAnswerPlayer results);
               d1 = (if length (scoringPlayers results) > 0
                     then d\<lparr>players :=
                            map (\<lambda>p. if p_id p \<in> set (scoringPlayers results)
                                     then p\<lparr>score := score p + 1\<rparr> else p) (players d)\<rparr>
                     else d);
               d2 = d1\<lparr>games := update_first (\<lambda>g. g_id g = gameId)
                           (\<lambda>g. g\<lparr>pinkCowHolder := newPinkCowHolder, playersAnswered := 0\<rparr>)
                           (games d1)\<rparr>;
               updatedPlayers = players_of gameId d2;
               out = [(ToRoom (roomCode gm),
                       RoundCompleted results newPinkCowHolder updatedPlayers)]
           in case find_winner updatedPlayers newPinkCowHolder of
                None \<Rightarrow> (d2, out)
              | Some winner \<Rightarrow>
                  (d2\<lparr>games := update_first (\<lambda>g. g_id g = gameId)
                          (\<lambda>g. g\<lparr>status := Completed\<rparr>) (games d2)\<rparr>,
                   out @ [(ToRoom (roomCode gm), GameCompleted winner)])))"

definition in_progress :: "oid \<Rightarrow> game \<Rightarrow> bool" where
  "in_progress gameId g = (g_id g = gameId \<and> status g = InProgress)"

definition increment :: "game \<Rightarrow> game" where
  "increment g = g\<lparr>playersAnswered := playersAnswered g + 1\<rparr>"

definition submit_answer :: "string \<Rightarrow> oid \<Rightarrow> string \<Rightarrow> db \<Rightarrow> db \<times> emitted" where
  "submit_answer sock gameId text d =
     (case find (in_progress gameId) (games d) of
        None \<Rightarrow> (d, to_sender sock ''Invalid game state'')
      | Some g0 \<Rightarrow>
          (let gm = increment g0;
               d1 = d\<lparr>games := update_first (in_progress gameId) increment (games d)\<rparr>
           in case find (\<lambda>p. p_gameId p = gameId \<and> socketId p = sock) (players d1) of
                None \<Rightarrow> (d1, to_sender sock ''Player not found'')
              | Some p \<Rightarrow>
                  (case find_round gameId (currentRound gm) d1 of
                     None \<Rightarrow> (d1, to_sender sock ''Failed to submit answer'')
                   | Some r \<Rightarrow>
                       (case insert_answer (new_answer gameId r p text) d1 of
                          None \<Rightarrow> (d1, to_sender sock ''Failed to submit answer'')
                        | Some d2 \<Rightarrow>
                            (let connectedPlayers = connected_count gameId d2;
                                 out = [(ToRoom (roomCode gm),
                                         PlayerAnswered (playersAnswered gm) connectedPlayers)]
                             in if playersAnswered gm \<ge> connectedPlayers
                                then (case close_round sock gameId gm r d2 of
                                        (d3, out') \<Rightarrow> (d3, out @ out'))
                                else (d2, out))))))"

subsection \<open>\<^verbatim>\<open>submit_answer\<close>, unnamed/part_001\<close>

text \<open>
  The older handler reads the game, stores the answer, then writes the counter back, and
  closes the round when the counter equals the number of all players of the game.  The
  scores are raised one \<^verbatim>\<open>findByIdAndUpdate\<close> per entry of \<^verbatim>\<open>scoringPlayers\<close>.  A
  \<^verbatim>\<open>null\<close> tally throws into the single \<^verbatim>\<open>catch\<close>.
\<close>

definition inc_score :: "db \<Rightarrow> string \<Rightarrow> db" where
  "inc_score d pid =
     d\<lparr>players := update_first (\<lambda>p. p_id p = pid) (\<lambda>p. p\<lparr>score := score p + 1\<rparr>) (players d)\<rparr>"

definition close_round_v1 :: "string \<Rightarrow> oid \<Rightarrow> game \<Rightarrow> round \<Rightarrow> db \<Rightarrow> db \<times> emitted" where
  "close_round_v1 sock gameId gm r d =
     (case analyzeRoundAnswers (r_id r) (answers d) of
        None \<Rightarrow> (d, to_sender sock ''Failed to submit answer'')
      | Some results \<Rightarrow>
          (let newPinkCowHolder =
                 determinePinkCowHolder (pinkCowHolder gm) (uniqueAnswerPlayer results);
               d1 = foldl inc_score d (scoringPlayers results);
               d2 = d1\<lparr>games := update_first (\<lambda>g. g_id g = g_id gm)
                           (\<lambda>g. g\<lparr>pinkCowHolder := newPinkCowHolder, playersAnswered := 0\<rparr>)
                           (games d1)\<rparr>;
               d3 = d2\<lparr>rounds := update_first (\<lambda>q. r_id q = r_id r)
                           (\<lambda>q. q\<lparr>r_status := RoundDone,
                                   r_majorityAnswer := majorityAnswer results,
                                   r_uniqueAnswerPlayer := uniqueAnswerPlayer results\<rparr>)
                           (rounds d2)\<rparr>;
               updatedPlayers = players_of gameId d3;
               winner = find_winner_v1 updatedPlayers newPinkCowHolder;
               out = [(ToRoom (roomCode gm),
                       RoundCompletedV1 results updatedPlayers newPinkCowHolder winner)]
           in if winner \<noteq> None
              then (d3\<lparr>games := update_first (\<lambda>g. g_id g = g_id gm)
                           (\<lambda>g. g\<lparr>status := Completed\<rparr>) (games d3)\<rparr>, out)
              else (d3, out)))"

definition submit_answer_v1 :: "string \<Rightarrow> oid \<Rightarrow> string \<Rightarrow> db \<Rightarrow> db \<times> emitted" where
  "submit_answer_v1 sock gameId text d =
     (case find (\<lambda>g. g_id g = gameId) (games d) of
        None \<Rightarrow> (d, to_sender sock ''Invalid game state'')
      | Some g0 \<Rightarrow>
          if status g0 \<noteq> InProgress then (d, to_sender sock ''Invalid game state'')
          else
            (case find (\<lambda>p. p_gameId p = gameId \<and> socketId p = sock) (players d) of
               None \<Rightarrow> (d, to_sender sock ''Player not found'')
             | Some p \<Rightarrow>
                 (case find_round gameId (currentRound g0) d of
                    None \<Rightarrow> (d, to_sender sock ''Failed to submit answer'')
                  | Some r \<Rightarrow>
                      (case insert_answer (new_answer gameId r p text) d of
                         None \<Rightarrow> (d, to_sender sock ''Failed to submit answer'')
                       | Some d1 \<Rightarrow>
                           (let gm = increment g0;
                                d2 = d1\<lparr>games := update_first (\<lambda>g. g_id g = g_id gm)
                                           (\<lambda>g. g\<lparr>playersAnswered := playersAnswered gm\<rparr>)
                                           (games d1)\<rparr>;
                                out = [(ToRoom (roomCode gm),
                                        PlayerAnsweredV1 (username p) (playersAnswered gm))]
                            in if playersAnswered gm = int (length (players_of gameId d2))
                               then (case close_round_v1 sock gameId gm r d2 of
                                       (d3, out') \<Rightarrow> (d3, out @ out'))
                               else (d2, out))))))"

subsection \<open>\<^verbatim>\<open>next_round\<close>, \<^verbatim>\<open>remove_player\<close>, \<^verbatim>\<open>reconnect_game\<close>, \<^verbatim>\<open>disconnect\<close>\<close>

definition next_round ::
  "string list \<Rightarrow> (nat \<Rightarrow> nat) \<Rightarrow> string \<Rightarrow> oid \<Rightarrow> oid \<Rightarrow> db \<Rightarrow> db \<times> emitted" where
  "next_round questions rnd sock gameId rid d =
     (case find (\<lambda>g. g_id g = gameId) (games d) of
        None \<Rightarrow> (d, to_sender sock ''Invalid game state'')
      | Some gm \<Rightarrow>
          if status gm \<noteq> InProgress then (d, to_sender sock ''Invalid game state'')
          else if hostId gm \<noteq> sock then (d, to_sender sock ''Only host can start next round'')
          else
            (case insert_round (new_round rid gameId (currentRound gm + 1)) d of
               None \<Rightarrow> (d, to_sender sock ''Failed to start next round'')
             | Some d1 \<Rightarrow>
                 (let nextQuestion = getRandomQuestion questions rnd (usedQuestions gm);
                      d2 = d1\<lparr>games := update_first (\<lambda>g. g_id g = gameId)
                                  (\<lambda>g. g\<lparr>currentRound := currentRound gm + 1,
                                          currentQuestion := nextQuestion,
                                          usedQuestions := usedQuestions gm @ [nextQuestion]\<rparr>)
                                  (games d1)\<rparr>
                  in (d2, [(ToRoom (roomCode gm),
                            NextRound (currentRound gm + 1) nextQuestion)]))))"

definition remove_player :: "string \<Rightarrow> oid \<Rightarrow> string \<Rightarrow> db \<Rightarrow> db \<times> emitted" where
  "remove_player sock gameId target d =
     (case find (\<lambda>g. g_id g = gameId) (games d) of
        None \<Rightarrow> (d, to_sender sock ''Unauthorized'')
      | Some gm \<Rightarrow>
          if sock \<noteq> hostId gm then (d, to_sender sock ''Unauthorized'')
          else
            (let d1 = d\<lparr>players := update_first (\<lambda>p. p_gameId p = gameId \<and> socketId p = target)
                                     (\<lambda>p. p\<lparr>isConnected := False\<rparr>) (players d)\<rparr>
             in (d1, [(ToRoom (roomCode gm), PlayersUpdated (players_of gameId d1))])))"

definition reconnect_game :: "string \<Rightarrow> oid \<Rightarrow> string \<Rightarrow> string \<Rightarrow> db \<Rightarrow> db \<times> emitted" where
  "reconnect_game sock gameId code name d =
     (case find (\<lambda>g. g_id g = gameId \<and> roomCode g = code) (games d) of
        None \<Rightarrow> (d, [(ToSocket sock, ReconnectFailed ''Game not found'')])
      | Some gm \<Rightarrow>
          (case find (\<lambda>p. p_gameId p = gameId \<and> username p = name \<and> \<not> isConnected p)
                  (players d) of
             None \<Rightarrow>
               (d, [(ToSocket sock, ReconnectFailed ''Player not found or already connected'')])
           | Some p \<Rightarrow>
               (let d1 = d\<lparr>players := update_first (\<lambda>q. p_id q = p_id p)
                                        (\<lambda>q. q\<lparr>socketId := sock, isConnected := True\<rparr>)
                                        (players d)\<rparr>;
                    d2 = d1\<lparr>joined := joined d1 @ [(sock, roomCode gm)]\<rparr>;
                    ps = players_of (g_id gm) d2;
                    answered =
                      (case find_round (g_id gm) (currentRound gm) d2 of
                         None \<Rightarrow> 0
                       | Some r \<Rightarrow> int (length (filter (\<lambda>a. roundId a = r_id r) (answers d2))))
                in (d2,
                    [(ToSocket sock,
                      GameRejoined (g_id gm) (p_id p) (roomCode gm) (currentRound gm)
                        (currentQuestion gm) ps (pinkCowHolder gm) answered),
                     (ToRoom (roomCode gm), PlayersUpdated ps)]))))"

definition disconnect :: "string \<Rightarrow> db \<Rightarrow> db \<times> emitted" where
  "disconnect sock d =
     (case find (\<lambda>p. socketId p = sock) (players d) of
        None \<Rightarrow> (d, [])
      | Some p \<Rightarrow>
          (let d1 = d\<lparr>players := update_first (\<lambda>q. p_id q = p_id p)
                                   (\<lambda>q. q\<lparr>isConnected := False\<rparr>) (players d)\<rparr>
           in case find (\<lambda>g. g_id g = p_gameId p) (games d1) of
                None \<Rightarrow> (d1, [])
              | Some gm \<Rightarrow> (d1, [(ToRoom (roomCode gm), PlayersUpdated (players_of (g_id gm) d1))])))"

subsection \<open>Retention sweep: \<^verbatim>\<open>cleanupOldGames\<close>\<close>

text \<open>
  \<open>oneWeekAgo\<close> is the timestamp that the \<^verbatim>\<open>Date\<close> arithmetic of the function yields.
  The games created before it go, with their players and rounds (their answers stay).
\<close>

definition cleanupOldGames :: "nat \<Rightarrow> db \<Rightarrow> db" where
  "cleanupOldGames oneWeekAgo d =
     (let gameIds = map g_id (filter (\<lambda>g. g_createdAt g < oneWeekAgo) (games d))
      in if length gameIds > 0
         then d\<lparr>players := filter (\<lambda>p. p_gameId p \<notin> set gameIds) (players d),
                rounds := filter (\<lambda>r. r_gameId r \<notin> set gameIds) (rounds d),
                games := filter (\<lambda>g. g_id g \<notin> set gameIds) (games d)\<rparr>
         else d)"

section \<open>The server as a transition system\<close>

text \<open>
  One request is one event delivered to a handler, with the sender's \<^verbatim>\<open>socket.id\<close>, the
  fields of the event, and what the environment supplies during the call (fresh
  identifiers, random draws, the clock).  The sweep is a request as well.
\<close>

datatype request =
    CreateGame string string "string list" oid oid nat
  | JoinGame string string string oid
  | StartGame string oid "nat \<Rightarrow> nat" oid
  | SubmitAnswer string oid string
  | NextRoundReq string oid "nat \<Rightarrow> nat" oid
  | RemovePlayer string oid string
  | ReconnectGame string oid string string
  | Disconnect string
  | Cleanup nat

text \<open>
  \<open>v1\<close> selects the server of unnamed/part_001: its own \<^verbatim>\<open>submit_answer\<close>, and no
  handler for \<^verbatim>\<open>reconnect_game\<close> (an event without a handler is dropped).
\<close>

fun step :: "bool \<Rightarrow> string list \<Rightarrow> request \<Rightarrow> db \<Rightarrow> (db \<times> emitted) option" where
  "step v1 qs (CreateGame sock name draws gid pid now) d =
     create_game v1 sock name draws gid pid now d"
| "step v1 qs (JoinGame sock code name pid) d = Some (join_game sock code name pid d)"
| "step v1 qs (StartGame sock gameId rnd rid) d = Some (start_game qs rnd sock gameId rid d)"
| "step v1 qs (SubmitAnswer sock gameId text) d =
     Some (if v1 then submit_answer_v1 sock gameId text d else submit_answer sock gameId text d)"
| "step v1 qs (NextRoundReq sock gameId rnd rid) d = Some (next_round qs rnd sock gameId rid d)"
| "step v1 qs (RemovePlayer sock gameId target) d = Some (remove_player sock gameId target d)"
| "step v1 qs (ReconnectGame sock gameId code name) d =
     Some (if v1 then (d, []) else reconnect_game sock gameId code name d)"
| "step v1 qs (Disconnect sock) d = Some (disconnect sock d)"
| "step v1 qs (Cleanup oneWeekAgo) d = Some (cleanupOldGames oneWeekAgo d, [])"

text \<open>The stores that the server can reach from the empty store.\<close>

inductive reachable :: "bool \<Rightarrow> string list \<Rightarrow> db \<Rightarrow> bool" for v1 :: bool and qs :: "string list" where
  reachable_empty: "reachable v1 qs empty_db"
| reachable_step:
    "reachable v1 qs d \<Longrightarrow> step v1 qs req d = Some (d', out) \<Longrightarrow> reachable v1 qs d'"

text \<open>Whether a handler ran the round-closing logic: it broadcast the round's result.\<close>

fun is_round_completed :: "target \<times> message \<Rightarrow> bool" where
  "is_round_completed (_, RoundCompleted _ _ _) = True"
| "is_round_completed (_, RoundCompletedV1 _ _ _ _) = True"
| "is_round_completed _ = False"

definition closes_round :: "emitted \<Rightarrow> bool" where
  "closes_round out = (filter is_round_completed out \<noteq> [])"

text \<open>The tallies that a handler broadcast with \<^verbatim>\<open>round_completed\<close>.\<close>

fun tally_of :: "target \<times> message \<Rightarrow> tally option" where
  "tally_of (_, RoundCompleted results _ _) = Some results"
| "tally_of (_, RoundCompletedV1 results _ _ _) = Some results"
| "tally_of _ = None"

definition broadcast_tallies :: "emitted \<Rightarrow> tally list" where
  "broadcast_tallies out = List.map_filter tally_of out"

text \<open>
  The round that a submission to \<open>gameId\<close> belongs to: the round of the game in progress
  that carries the game's current round number.  The result of that round is its tally
  over the answers stored once the request is handled.
\<close>

definition current_round_id :: "oid \<Rightarrow> db \<Rightarrow> oid option" where
  "current_round_id gameId d =
     (case find (in_progress gameId) (games d) of
        None \<Rightarrow> None
      | Some g \<Rightarrow> map_option r_id (find_round gameId (currentRound g) d))"

fun round_result :: "request \<Rightarrow> db \<Rightarrow> db \<Rightarrow> tally option" where
  "round_result (SubmitAnswer sock gameId text) d d' =
     (case current_round_id gameId d of
        None \<Rightarrow> None
      | Some rid \<Rightarrow> analyzeRoundAnswers rid (answers d'))"
| "round_result _ d d' = None"

text \<open>
  The scoring players of a request: those of the round's result when the request closed a
  round, nobody otherwise.
\<close>

definition scoring_players :: "request \<Rightarrow> db \<Rightarrow> db \<Rightarrow> emitted \<Rightarrow> string list" where
  "scoring_players req d d' out =
     (if closes_round out
      then (case round_result req d d' of None \<Rightarrow> [] | Some results \<Rightarrow> scoringPlayers results)
      else [])"

text \<open>
  How the players after a request relate to the players before it, \<open>paid\<close> being the
  identifiers of the scoring players.  A player that existed (same \<^verbatim>\<open>_id\<close>) has the score
  it had, plus exactly one if it is a scoring player; a new player has score 0; no score is
  negative.
\<close>

definition score_step_ok :: "string list \<Rightarrow> player list \<Rightarrow> player \<Rightarrow> bool" where
  "score_step_ok paid before p' =
     (case find (\<lambda>p. p_id p = p_id p') before of
        None \<Rightarrow> score p' = 0
      | Some p \<Rightarrow> score p' = score p + (if p_id p' \<in> set paid then 1 else 0))"

definition scores_ok :: "string list \<Rightarrow> player list \<Rightarrow> player list \<Rightarrow> bool" where
  "scores_ok paid before after =
     list_all (\<lambda>p'. 0 \<le> score p' \<and> score_step_ok paid before p') after"

text \<open>
  When a submission gets as far as the test that decides whether the round closes, and the
  value of the counter after its increment: the game is found in progress, the sending
  socket belongs to a player of the game, the current round exists and the answer is
  stored.  \<open>None\<close> when the handler stops earlier.
\<close>

definition accepted :: "string \<Rightarrow> oid \<Rightarrow> string \<Rightarrow> db \<Rightarrow> int option" where
  "accepted sock gameId text d =
     (case find (in_progress gameId) (games d) of
        None \<Rightarrow> None
      | Some g0 \<Rightarrow>
          (case find (\<lambda>p. p_gameId p = gameId \<and> socketId p = sock) (players d) of
             None \<Rightarrow> None
           | Some p \<Rightarrow>
               (case find_round gameId (currentRound g0) d of
                  None \<Rightarrow> None
                | Some r \<Rightarrow>
                    if insert_answer (new_answer gameId r p text) d = None then None
                    else Some (playersAnswered g0 + 1))))"

definition accepted_v1 :: "string \<Rightarrow> oid \<Rightarrow> string \<Rightarrow> db \<Rightarrow> int option" where
  "accepted_v1 sock gameId text d =
     (case find (\<lambda>g. g_id g = gameId) (games d) of
        None \<Rightarrow> None
      | Some g0 \<Rightarrow>
          if status g0 \<noteq> InProgress then None
          else
            (case find (\<lambda>p. p_gameId p = gameId \<and> socketId p = sock) (players d) of
               None \<Rightarrow> None
             | Some p \<Rightarrow>
                 (case find_round gameId (currentRound g0) d of
                    None \<Rightarrow> None
                  | Some r \<Rightarrow>
                      if insert_answer (new_answer gameId r p text) d = None then None
                      else Some (playersAnswered g0 + 1))))"

text \<open>The counter of a game after the atomic increment of unnamed/part_000.\<close>

definition post_increment :: "oid \<Rightarrow> db \<Rightarrow> int option" where
  "post_increment gameId d =
     map_option (\<lambda>g. playersAnswered g + 1) (find (in_progress gameId) (games d))"

section \<open>Example stores\<close>

definition ex_game :: "game_status \<Rightarrow> int \<Rightarrow> game" where
  "ex_game st n =
     \<lparr>g_id = ''g1'', roomCode = ''AB12CD'', hostId = ''s1'', status = st, currentRound = 1,
      currentQuestion = Some ''q1'', playersAnswered = n, pinkCowHolder = None,
      usedQuestions = [Some ''q1''], g_createdAt = 0\<rparr>"

definition ex_player :: "oid \<Rightarrow> string \<Rightarrow> string \<Rightarrow> bool \<Rightarrow> int \<Rightarrow> player" where
  "ex_player pid name sock conn sc =
     \<lparr>p_id = pid, p_gameId = ''g1'', username = name, isHost = (sock = ''s1''), score = sc,
      isConnected = conn, socketId = sock\<rparr>"

definition ex_answer :: "string \<Rightarrow> string \<Rightarrow> string \<Rightarrow> answer" where
  "ex_answer pid name text =
     \<lparr>a_gameId = ''g1'', roundId = ''r1'', playerId = pid, a_username = name,
      originalAnswer = text, normalizedAnswer = normalizeAnswer text\<rparr>"

definition ex_db :: "game_status \<Rightarrow> int \<Rightarrow> player list \<Rightarrow> answer list \<Rightarrow> db" where
  "ex_db st n ps as =
     \<lparr>games = [ex_game st n], players = ps, rounds = [new_round ''r1'' ''g1'' 1],
      answers = as, joined = []\<rparr>"

text \<open>Two connected players, nobody has answered yet.\<close>

definition db_fresh :: db where
  "db_fresh = ex_db InProgress 0
     [ex_player ''p1'' ''ann'' ''s1'' True 0, ex_player ''p2'' ''bob'' ''s2'' True 0] []"

text \<open>
  Three players; Ann and Bob answered and then lost their connections, Cy is connected
  and has not answered.
\<close>

definition db_late :: db where
  "db_late = ex_db InProgress 2
     [ex_player ''p1'' ''ann'' ''s1'' False 0, ex_player ''p2'' ''bob'' ''s2'' False 0,
      ex_player ''p3'' ''cy'' ''s3'' True 0]
     [ex_answer ''p1'' ''ann'' ''dog'', ex_answer ''p2'' ''bob'' ''dog'']"

text \<open>One connected player in a round without answers.\<close>

definition db_single :: db where
  "db_single = ex_db InProgress 0 [ex_player ''p1'' ''ann'' ''s1'' True 0] []"

text \<open>Ann is connected, Bob has lost his connection, nobody has answered yet.\<close>

definition db_half :: db where
  "db_half = ex_db InProgress 0
     [ex_player ''p1'' ''ann'' ''s1'' True 0, ex_player ''p2'' ''bob'' ''s2'' False 0] []"

text \<open>A finished game: Ann has won with 8 points.\<close>

definition db_finished :: db where
  "db_finished = ex_db Completed 0
     [ex_player ''p1'' ''ann'' ''s1'' True 8, ex_player ''p2'' ''bob'' ''s2'' True 3] []"

text \<open>A run of the server: the requests are handled one after the other.\<close>

fun run :: "bool \<Rightarrow> string list \<Rightarrow> request list \<Rightarrow> db \<Rightarrow> db" where
  "run v1 qs [] d = d"
| "run v1 qs (req # reqs) d =
     (case step v1 qs req d of None \<Rightarrow> d | Some (d', _) \<Rightarrow> run v1 qs reqs d')"

text \<open>
  Ann creates a room, Bob and Cy join, Ann starts the game; Ann answers \<open>dog\<close> and Bob
  \<open>Dogs\<close>; then Cy answers \<open>cat\<close>.
\<close>

definition ex_requests :: "request list" where
  "ex_requests =
     [CreateGame ''s1'' ''ann'' [''AB12CD''] ''g1'' ''p1'' 0,
      JoinGame ''s2'' ''AB12CD'' ''bob'' ''p2'',
      JoinGame ''s3'' ''AB12CD'' ''cy'' ''p3'',
      StartGame ''s1'' ''g1'' (\<lambda>n. 0) ''r1'',
      SubmitAnswer ''s1'' ''g1'' ''dog'',
      SubmitAnswer ''s2'' ''g1'' ''Dogs'']"

definition ex_last_request :: request where
  "ex_last_request = SubmitAnswer ''s3'' ''g1'' ''cat''"

text \<open>The messages emitted over a run, in order.\<close>

fun run_emitted :: "bool \<Rightarrow> string list \<Rightarrow> request list \<Rightarrow> db \<Rightarrow> emitted" where
  "run_emitted v1 qs [] d = []"
| "run_emitted v1 qs (req # reqs) d =
     (case step v1 qs req d of
        None \<Rightarrow> []
      | Some (d', out) \<Rightarrow> out @ run_emitted v1 qs reqs d')"

text \<open>
  Ann creates a room, Bob joins, Ann starts the game.  Bob loses his connection and Ann
  answers; Ann loses her connection, Bob reconnects on a new socket and answers.  Nobody
  asks for the next round.
\<close>

definition ex_reconnect_requests :: "request list" where
  "ex_reconnect_requests =
     [CreateGame ''s1'' ''ann'' [''AB12CD''] ''g1'' ''p1'' 0,
      JoinGame ''s2'' ''AB12CD'' ''bob'' ''p2'',
      StartGame ''s1'' ''g1'' (\<lambda>n. 0) ''r1'',
      Disconnect ''s2'',
      SubmitAnswer ''s1'' ''g1'' ''dog'',
      Disconnect ''s1'',
      ReconnectGame ''s3'' ''g1'' ''AB12CD'' ''bob'',
      SubmitAnswer ''s3'' ''g1'' ''dog'']"

text \<open>
  Ann, Bob and Cy are connected and play round 1.  Ann sends her answer twice, Bob answers;
  later Ann and Bob send their answers once more and Cy answers.  No connection changes
  and nobody asks for the next round.
\<close>

definition ex_resubmit_requests :: "request list" where
  "ex_resubmit_requests =
     [CreateGame ''s1'' ''ann'' [''AB12CD''] ''g1'' ''p1'' 0,
      JoinGame ''s2'' ''AB12CD'' ''bob'' ''p2'',
      JoinGame ''s3'' ''AB12CD'' ''cy'' ''p3'',
      StartGame ''s1'' ''g1'' (\<lambda>n. 0) ''r1'',
      SubmitAnswer ''s1'' ''g1'' ''dog'',
      SubmitAnswer ''s1'' ''g1'' ''dog'',
      SubmitAnswer ''s2'' ''g1'' ''dog'',
      SubmitAnswer ''s1'' ''g1'' ''dog'',
      SubmitAnswer ''s2'' ''g1'' ''dog'',
      SubmitAnswer ''s3'' ''g1'' ''cat'']"

section \<open>Invariants of the store\<close>

text \<open>
  Player identifiers are distinct and no score is negative; the answers respect the unique
  index on \<^verbatim>\<open>(roundId, playerId)\<close>.
\<close>

definition pl_inv :: "player list \<Rightarrow> bool" where
  "pl_inv ps = (distinct (map p_id ps) \<and> (\<forall>p\<in>set ps. 0 \<le> score p))"

definition db_inv :: "db \<Rightarrow> bool" where
  "db_inv d = (pl_inv (players d) \<and> distinct (map (\<lambda>a. (roundId a, playerId a)) (answers d)))"

definition good :: "string list \<Rightarrow> db \<Rightarrow> db \<Rightarrow> bool" where
  "good paid d d' = (db_inv d' \<and> scores_ok paid (players d) (players d'))"

text \<open>The scoring players of a tally, nobody when there is no tally.\<close>

definition paid_by :: "tally option \<Rightarrow> string list" where
  "paid_by t = (case t of None \<Rightarrow> [] | Some res \<Rightarrow> scoringPlayers res)"

text \<open>
  A request handled as it should be: the invariant is kept, the scores move as the scoring
  players of the request say, and the tally broadcast, if any, is the result of the game's
  current round.
\<close>

definition exact :: "request \<Rightarrow> db \<Rightarrow> db \<Rightarrow> emitted \<Rightarrow> bool" where
  "exact req d d' out =
     (good (scoring_players req d d' out) d d'
      \<and> map Some (broadcast_tallies out)
          = (if closes_round out then [round_result req d d'] else []))"

section \<open>Token rule\<close>

text \<open>
  Claim C9.  For every current token holder (possibly none) and every unique answerer
  (possibly none), player identities being non-empty strings, the token rule returns the
  unique answerer exactly when there is one and it differs from the current holder; in
  every other case it returns the current holder, and none when there is no holder.
\<close>

theorem determinePinkCowHolder_rule:
  assumes "wf_holder h" and "wf_holder u"
  shows "determinePinkCowHolder h u = (if u \<noteq> None \<and> u \<noteq> h then u else h)"
  using assms by (cases h; cases u) (auto simp: determinePinkCowHolder_def)

theorem determinePinkCowHolder_rule_witness:
  "wf_holder (Some ''p1'') \<and> wf_holder (Some ''p2'') \<and> wf_holder None
   \<and> determinePinkCowHolder (Some ''p1'') (Some ''p2'') = Some ''p2''
   \<and> determinePinkCowHolder (Some ''p1'') (Some ''p1'') = Some ''p1''
   \<and> determinePinkCowHolder (Some ''p1'') None = Some ''p1''
   \<and> determinePinkCowHolder None (Some ''p2'') = Some ''p2''
   \<and> determinePinkCowHolder None None = None"
  using determinePinkCowHolder_rule [of "Some ''p1''" "Some ''p2''"]
    determinePinkCowHolder_rule [of "Some ''p1''" "Some ''p1''"]
    determinePinkCowHolder_rule [of "Some ''p1''" None]
    determinePinkCowHolder_rule [of None "Some ''p2''"]
    determinePinkCowHolder_rule [of None None]
  by simp

section \<open>Win evaluation\<close>

lemma potentialWinners_eligible: "potentialWinners ps holder = eligible ps holder"
  by (cases holder) (auto simp: potentialWinners_def eligible_def intro: filter_cong)

text \<open>
  The \<^verbatim>\<open>reduce\<close> keeps the accumulator only when it is strictly ahead, so its result is
  the last element of highest score: nothing before it is higher, everything after it is
  strictly lower.
\<close>

lemma foldl_higher_last_max:
  "\<exists>pre post. x # xs = pre @ foldl higher x xs # post
     \<and> (\<forall>q\<in>set pre. score q \<le> score (foldl higher x xs))
     \<and> (\<forall>q\<in>set post. score q < score (foldl higher x xs))"
proof (induction xs rule: rev_induct)
  case Nil
  have "x # [] = [] @ foldl higher x [] # []" by simp
  then show ?case by (metis empty_iff list.set(1))
next
  case (snoc y ys)
  let ?w = "foldl higher x ys"
  from snoc obtain pre post where pp: "x # ys = pre @ ?w # post"
    "\<forall>q\<in>set pre. score q \<le> score ?w" "\<forall>q\<in>set post. score q < score ?w"
    by blast
  show ?case
  proof (cases "score ?w > score y")
    case True
    then have w: "foldl higher x (ys @ [y]) = ?w" by (simp add: higher_def)
    have "x # ys @ [y] = pre @ ?w # (post @ [y])" using pp(1) by simp
    moreover have "\<forall>q\<in>set (post @ [y]). score q < score ?w" using pp(3) True by simp
    ultimately show ?thesis using pp(2) unfolding w by blast
  next
    case False
    then have w: "foldl higher x (ys @ [y]) = y" by (simp add: higher_def)
    have all: "\<forall>q\<in>set (x # ys). score q \<le> score ?w"
    proof
      fix q assume "q \<in> set (x # ys)"
      then have "q \<in> set pre \<or> q = ?w \<or> q \<in> set post" unfolding pp(1) by auto
      then show "score q \<le> score ?w" using pp(2,3) by force
    qed
    have "x # ys @ [y] = (x # ys) @ y # []" by simp
    moreover have "\<forall>q\<in>set (x # ys). score q \<le> score y" using all False by force
    ultimately show ?thesis unfolding w by (metis empty_iff list.set(1))
  qed
qed

text \<open>
  Claim C3, as the handler of unnamed/part_000 has it.  For every list of players and
  every token holder, no winner is declared exactly when no player has at least 8 points
  without holding the token; a declared winner has at least 8 points, does not hold the
  token, and is the highest-scoring such player, the last one in iteration order among
  those of equal score.
\<close>

theorem find_winner_last_highest:
  "case find_winner ps holder of
     None \<Rightarrow> eligible ps holder = []
   | Some w \<Rightarrow> score w \<ge> 8 \<and> Some (p_id w) \<noteq> holder \<and> w \<in> set ps
       \<and> (\<exists>pre post. eligible ps holder = pre @ w # post
            \<and> (\<forall>q\<in>set pre. score q \<le> score w)
            \<and> (\<forall>q\<in>set post. score q < score w))"
proof (cases "eligible ps holder")
  case Nil
  then show ?thesis by (simp add: find_winner_def potentialWinners_eligible)
next
  case (Cons x xs)
  let ?w = "foldl higher x xs"
  have fw: "find_winner ps holder = Some ?w"
    by (simp add: find_winner_def potentialWinners_eligible Cons)
  from foldl_higher_last_max [of x xs] obtain pre post where pp:
    "x # xs = pre @ ?w # post" "\<forall>q\<in>set pre. score q \<le> score ?w"
    "\<forall>q\<in>set post. score q < score ?w" by blast
  have "?w \<in> set (eligible ps holder)" unfolding Cons pp(1) by simp
  then have "score ?w \<ge> 8 \<and> Some (p_id ?w) \<noteq> holder \<and> ?w \<in> set ps"
    by (simp add: eligible_def)
  moreover have "\<exists>pre post. eligible ps holder = pre @ ?w # post
            \<and> (\<forall>q\<in>set pre. score q \<le> score ?w)
            \<and> (\<forall>q\<in>set post. score q < score ?w)"
    unfolding Cons using pp by blast
  ultimately show ?thesis unfolding fw by simp
qed

theorem find_winner_last_highest_witness:
  "find_winner [ex_player ''p1'' ''ann'' ''s1'' True 9, ex_player ''p2'' ''bob'' ''s2'' True 9,
                ex_player ''p3'' ''cy'' ''s3'' True 10] (Some ''p3'')
     = Some (ex_player ''p2'' ''bob'' ''s2'' True 9)
   \<and> (\<exists>pre post.
         eligible [ex_player ''p1'' ''ann'' ''s1'' True 9, ex_player ''p2'' ''bob'' ''s2'' True 9,
                   ex_player ''p3'' ''cy'' ''s3'' True 10] (Some ''p3'')
           = pre @ ex_player ''p2'' ''bob'' ''s2'' True 9 # post
         \<and> (\<forall>q\<in>set pre. score q \<le> 9) \<and> (\<forall>q\<in>set post. score q < 9))"
proof -
  let ?ps = "[ex_player ''p1'' ''ann'' ''s1'' True 9, ex_player ''p2'' ''bob'' ''s2'' True 9,
              ex_player ''p3'' ''cy'' ''s3'' True 10]"
  have fw: "find_winner ?ps (Some ''p3'') = Some (ex_player ''p2'' ''bob'' ''s2'' True 9)"
    by (simp add: find_winner_def potentialWinners_def higher_def ex_player_def)
  have sc: "score (ex_player ''p2'' ''bob'' ''s2'' True 9) = 9" by (simp add: ex_player_def)
  show ?thesis
    using find_winner_last_highest [of ?ps "Some ''p3''"] unfolding fw by (simp add: sc)
qed

text \<open>
  Two players reach 8 points in the same round and nobody holds the token: the
  specification's evaluator names the first, the handler names the second.
\<close>

theorem find_winner_tie_counterexample:
  "find_winner [ex_player ''p1'' ''ann'' ''s1'' True 8, ex_player ''p2'' ''bob'' ''s2'' True 8] None
     = Some (ex_player ''p2'' ''bob'' ''s2'' True 8)
   \<and> spec_evaluate [ex_player ''p1'' ''ann'' ''s1'' True 8, ex_player ''p2'' ''bob'' ''s2'' True 8] None
     = Some (ex_player ''p1'' ''ann'' ''s1'' True 8)
   \<and> find_winner [ex_player ''p1'' ''ann'' ''s1'' True 8, ex_player ''p2'' ''bob'' ''s2'' True 8] None
     \<noteq> spec_evaluate [ex_player ''p1'' ''ann'' ''s1'' True 8, ex_player ''p2'' ''bob'' ''s2'' True 8] None"
  by (simp add: find_winner_def potentialWinners_def spec_evaluate_def eligible_def higher_def
      ex_player_def)

text \<open>
  The older handler goes through \<^verbatim>\<open>checkWinCondition\<close>, whose strict comparison of an
  ObjectId with a string never finds them equal: the test reduces to the score, and a
  player who holds the token is declared winner.
\<close>

lemma checkWinCondition_score_only: "checkWinCondition p holder = (score p \<ge> 8)"
  by (cases holder) (simp_all add: checkWinCondition_def)

lemma find_winner_v1_token_holder:
  "find_winner_v1 [ex_player ''p1'' ''ann'' ''s1'' True 8] (Some ''p1'')
     = Some (ex_player ''p1'' ''ann'' ''s1'' True 8)"
  by (simp add: find_winner_v1_def checkWinCondition_score_only ex_player_def)

section \<open>Round tally\<close>

text \<open>
  As long as no canonical text is a name that a plain object inherits, the counting loop
  keeps one numeric entry per canonical text, holding the size of its group, and the tally
  is the one that the specification describes.
\<close>

lemma group_size_count: "group_size xs t = count_list (map normalizedAnswer xs) t"
  by (induction xs) (auto simp: group_size_def)

lemma snd_update_subset: "snd ` set (AList.update k v al) \<subseteq> insert v (snd ` set al)"
  by (induction al) auto

lemma bump_plain:
  assumes "k \<notin> set (''__proto__'' # prototype_functions)" and "NotANumber \<notin> snd ` set r"
  shows "bump r k = AList.update k (Num (kept r k + 1)) r"
proof (cases "map_of r k")
  case None
  then show ?thesis using assms(1) by (simp add: bump_def kept_def)
next
  case (Some c)
  then have "c \<in> snd ` set r" by (force dest: map_of_SomeD)
  then obtain n where "c = Num n" using assms(2) by (cases c) auto
  then show ?thesis using Some by (simp add: bump_def kept_def)
qed

lemma kept_update: "kept (AList.update k v r) k' = (if k' = k then (case v of Num n \<Rightarrow> n | _ \<Rightarrow> 0) else kept r k')"
  by (simp add: kept_def update_conv')

lemma foldl_bump:
  assumes "\<forall>k\<in>set ks. k \<notin> set (''__proto__'' # prototype_functions)"
    and "NotANumber \<notin> snd ` set r" and "distinct (map fst r)"
  shows "NotANumber \<notin> snd ` set (foldl bump r ks)
         \<and> distinct (map fst (foldl bump r ks))
         \<and> fst ` set (foldl bump r ks) = fst ` set r \<union> set ks
         \<and> (\<forall>k. kept (foldl bump r ks) k = kept r k + count_list ks k)"
  using assms
proof (induction ks arbitrary: r)
  case Nil
  then show ?case by simp
next
  case (Cons k ks)
  define r' where "r' = AList.update k (Num (kept r k + 1)) r"
  have b: "bump r k = r'" unfolding r'_def using Cons.prems(1,2) by (intro bump_plain) simp_all
  have n: "NotANumber \<notin> snd ` set r'"
    unfolding r'_def using snd_update_subset [of k "Num (kept r k + 1)" r] Cons.prems(2) by auto
  have d: "distinct (map fst r')" unfolding r'_def using Cons.prems(3) by (simp add: distinct_update)
  have p: "\<forall>k\<in>set ks. k \<notin> set (''__proto__'' # prototype_functions)" using Cons.prems(1) by simp
  from Cons.IH [OF p n d]
  have ih: "NotANumber \<notin> snd ` set (foldl bump r' ks)" "distinct (map fst (foldl bump r' ks))"
    "fst ` set (foldl bump r' ks) = fst ` set r' \<union> set ks"
    "\<And>k'. kept (foldl bump r' ks) k' = kept r' k' + count_list ks k'" by simp_all
  have keys: "fst ` set r' = insert k (fst ` set r)" unfolding r'_def by (simp add: dom_update)
  have kp: "\<And>k'. kept r' k' = (if k' = k then kept r k + 1 else kept r k')"
    unfolding r'_def by (simp add: kept_update)
  have f: "foldl bump r (k # ks) = foldl bump r' ks" by (simp add: b)
  show ?case unfolding f using ih(1,2) by (auto simp: ih(3,4) keys kp)
qed

lemma count_answers_facts:
  assumes "plain_keys xs"
  shows "distinct (map fst (count_answers xs))"
    and "set (map fst (count_answers xs)) = set (map normalizedAnswer xs)"
    and "(k, c) \<in> set (count_answers xs) \<Longrightarrow> c = Num (group_size xs k)"
proof -
  let ?ks = "map normalizedAnswer xs"
  have p: "\<forall>k\<in>set ?ks. k \<notin> set (''__proto__'' # prototype_functions)"
    using assms by (auto simp: plain_keys_def list_all_iff)
  from foldl_bump [OF p, of "[]"]
  have f: "NotANumber \<notin> snd ` set (count_answers xs)" "distinct (map fst (count_answers xs))"
    "fst ` set (count_answers xs) = set ?ks"
    "\<And>k. kept (count_answers xs) k = count_list ?ks k"
    by (simp_all add: count_answers_def kept_def)
  show "distinct (map fst (count_answers xs))" by (rule f(2))
  show "set (map fst (count_answers xs)) = set (map normalizedAnswer xs)" using f(3) by simp
  assume kc: "(k, c) \<in> set (count_answers xs)"
  then have m: "map_of (count_answers xs) k = Some c" using f(2) by simp
  have "c \<in> snd ` set (count_answers xs)" using kc by force
  then obtain n where c: "c = Num n" using f(1) by (cases c) auto
  have "kept (count_answers xs) k = n" using m c by (simp add: kept_def)
  then show "c = Num (group_size xs k)" using f(4) [of k] c by (simp add: group_size_count)
qed

lemma entries_by_key:
  "\<forall>(k, c)\<in>set r. c = Num (g k) \<Longrightarrow> r = map (\<lambda>k. (k, Num (g k))) (map fst r)"
  by (induction r) auto

lemma count_answers_eq:
  assumes "plain_keys xs"
  shows "count_answers xs
           = map (\<lambda>k. (k, Num (group_size xs k))) (map fst (count_answers xs))"
  by (rule entries_by_key) (use count_answers_facts(3) [OF assms] in auto)

lemma those_Some_map: "those (map (\<lambda>x. Some (f x)) xs) = Some (map f xs)"
  by (induction xs) simp_all

lemma math_max_numeric:
  "K \<noteq> [] \<Longrightarrow> math_max (map snd (map (\<lambda>k. (k, Num (g k))) K)) = Some (Max (g ` set K))"
proof -
  assume "K \<noteq> []"
  then obtain k ks where K: "K = k # ks" by (cases K) auto
  have "map num_of (map snd (map (\<lambda>k. (k, Num (g k))) K)) = map (\<lambda>k. Some (g k)) K"
    by (simp add: comp_def)
  then have "math_max (map snd (map (\<lambda>k. (k, Num (g k))) K)) = Some (fold max (map g ks) (g k))"
    unfolding math_max_def by (simp only: those_Some_map) (simp add: K)
  also have "fold max (map g ks) (g k) = Max (set (g k # map g ks))"
    by (simp only: Max.set_eq_fold)
  also have "set (g k # map g ks) = g ` set K" by (simp add: K)
  finally show ?thesis .
qed

lemma filter_entries:
  "map fst (filter (\<lambda>(_, c). is_count m c) (map (\<lambda>k. (k, Num (g k))) K))
     = filter (\<lambda>k. m = Some (g k)) K"
  by (simp add: filter_map comp_def is_count_def)

lemma fold_max_highest:
  "T \<noteq> [] \<Longrightarrow> fold max (map g T) (0::nat) = Max (g ` set T)"
proof -
  assume "T \<noteq> []"
  have "fold max (map g T) 0 = Max (set (0 # map g T))" by (simp only: Max.set_eq_fold)
  also have "\<dots> = max 0 (Max (g ` set T))" using \<open>T \<noteq> []\<close> by simp
  finally show ?thesis by simp
qed

lemma distinct_singleton: "distinct B \<Longrightarrow> set B = {t} \<Longrightarrow> B = [t]"
proof -
  assume d: "distinct B" and s: "set B = {t}"
  then obtain b bs where B: "B = b # bs" by (cases B) auto
  have "b = t" using s B by auto
  moreover have "set bs \<subseteq> {t}" using s B by auto
  moreover have "t \<notin> set bs" using d B \<open>b = t\<close> by simp
  ultimately have "bs = []" by (cases bs) auto
  then show ?thesis using B \<open>b = t\<close> by simp
qed

lemma filter_singleton_transfer:
  assumes "distinct A" and "distinct B" and "set A = set B" and "filter P A = [t]"
  shows "filter P B = [t]"
proof -
  have "set (filter P B) = set (filter P A)" using assms(3) by simp
  then have "set (filter P B) = {t}" using assms(4) by simp
  moreover have "distinct (filter P B)" using assms(2) by simp
  ultimately show ?thesis by (rule distinct_singleton [rotated])
qed

lemma filter_singleton_iff:
  assumes "distinct A" and "distinct B" and "set A = set B"
  shows "filter P A = [t] \<longleftrightarrow> filter P B = [t]"
  using filter_singleton_transfer [OF assms] filter_singleton_transfer [OF assms(2,1) assms(3) [symmetric]]
  by blast

lemma length_one_iff: "length xs = Suc 0 \<longleftrightarrow> (\<exists>t. xs = [t])"
  by (cases xs) auto

text \<open>
  For every non-empty list of answers without such a canonical text: the majority answer,
  the scoring players and the unique answerer of the code are those of the specification.
\<close>

lemma analyze_plain:
  assumes "plain_keys xs" and "xs \<noteq> []"
  shows "majorityAnswer (analyze xs) = spec_majorityAnswer xs"
    and "scoringPlayers (analyze xs) = spec_scoringPlayers xs"
    and "uniqueAnswerPlayer (analyze xs) = spec_uniqueAnswerer xs"
proof -
  define K where "K = map fst (count_answers xs)"
  define T where "T = canonical_texts xs"
  define g where "g = group_size xs"
  define M where "M = Max (g ` set K)"
  have r: "count_answers xs = map (\<lambda>k. (k, Num (g k))) K"
    unfolding K_def g_def by (rule count_answers_eq [OF assms(1)])
  have dK: "distinct K" unfolding K_def by (rule count_answers_facts(1) [OF assms(1)])
  have dT: "distinct T" unfolding T_def canonical_texts_def by simp
  have sK: "set K = set T"
    unfolding K_def T_def canonical_texts_def using count_answers_facts(2) [OF assms(1)] by simp
  have Kne: "K \<noteq> []"
  proof
    assume "K = []"
    then have "set (map normalizedAnswer xs) = {}"
      using sK by (simp add: T_def canonical_texts_def)
    then show False using assms(2) by simp
  qed
  then have Tne: "T \<noteq> []" using sK by auto
  have mx: "math_max (map snd (count_answers xs)) = Some M"
    unfolding r M_def by (rule math_max_numeric [OF Kne])
  define maj where "maj = filter (\<lambda>k. g k = M) K"
  define uni where "uni = filter (\<lambda>k. g k = 1) K"
  have majK: "map fst (filter (\<lambda>(_, c). is_count (Some M) c) (count_answers xs)) = maj"
    unfolding r maj_def filter_entries by (rule filter_cong) auto
  have uniK: "map fst (filter (\<lambda>(_, c). is_count (Some 1) c) (count_answers xs)) = uni"
    unfolding r uni_def filter_entries by (rule filter_cong) auto
  have an: "analyze xs =
      \<lparr> majorityAnswer = (if length maj = 1 then Some (hd maj) else None),
        uniqueAnswerPlayer =
          (if length uni = 1
           then map_option playerId (find (\<lambda>a. normalizedAnswer a \<in> set uni) xs) else None),
        scoringPlayers =
          (if length maj = 1
           then map playerId (filter (\<lambda>a. normalizedAnswer a = hd maj) xs) else []),
        allAnswers = map (\<lambda>a. (playerId a, a_username a, originalAnswer a)) xs \<rparr>"
    by (simp only: analyze_def Let_def mx majK uniK)
  have hi: "fold max (map g T) 0 = M"
    unfolding M_def sK by (rule fold_max_highest [OF Tne])
  have top: "top_texts xs = filter (\<lambda>t. g t = M) T"
    by (simp add: top_texts_def Let_def T_def [symmetric] g_def [symmetric] hi)
  have majT: "maj = [t] \<longleftrightarrow> top_texts xs = [t]" for t
    unfolding maj_def top by (rule filter_singleton_iff [OF dK dT sK])
  have uniT: "uni = [t] \<longleftrightarrow> filter (\<lambda>t. g t = 1) T = [t]" for t
    unfolding uni_def by (rule filter_singleton_iff [OF dK dT sK])
  have sm: "spec_majorityAnswer xs = (if length maj = 1 then Some (hd maj) else None)"
  proof (cases "length maj = 1")
    case True
    then obtain t where t: "maj = [t]" by (auto simp: length_one_iff)
    then have "top_texts xs = [t]" using majT by simp
    then show ?thesis using t by (simp add: spec_majorityAnswer_def)
  next
    case False
    have "\<nexists>t. top_texts xs = [t]" using False majT by (auto simp: length_one_iff)
    then have "spec_majorityAnswer xs = None"
      by (auto simp: spec_majorityAnswer_def split: list.splits)
    then show ?thesis using False by simp
  qed
  show "majorityAnswer (analyze xs) = spec_majorityAnswer xs" by (simp add: an sm)
  show "scoringPlayers (analyze xs) = spec_scoringPlayers xs"
    by (simp add: an spec_scoringPlayers_def sm)
  show "uniqueAnswerPlayer (analyze xs) = spec_uniqueAnswerer xs"
  proof (cases "length uni = 1")
    case True
    then obtain t where t: "uni = [t]" by (auto simp: length_one_iff)
    then have "filter (\<lambda>t. g t = 1) T = [t]" using uniT by simp
    then show ?thesis using t
      by (simp add: an spec_uniqueAnswerer_def T_def [symmetric] g_def [symmetric])
  next
    case False
    have "\<nexists>t. filter (\<lambda>t. g t = 1) T = [t]" using False uniT by (auto simp: length_one_iff)
    then have "spec_uniqueAnswerer xs = None"
      by (auto simp: spec_uniqueAnswerer_def T_def [symmetric] g_def [symmetric] split: list.splits)
    then show ?thesis using False by (simp add: an)
  qed
qed

text \<open>
  Claim C7 at the input where it fails.  Ann and Bob both answer \<open>constructor\<close>.  One
  canonical text has the highest count, the specification's majority answer is that text
  and both players score; the code finds \<^verbatim>\<open>answerCounts["constructor"]\<close> inherited
  from \<^verbatim>\<open>Object.prototype\<close>, counts with a string, and reports no majority and no
  scoring player.
\<close>

theorem analyze_constructor_no_majority:
  "majorityAnswer (analyze [ex_answer ''p1'' ''ann'' ''constructor'',
                            ex_answer ''p2'' ''bob'' ''constructor'']) = None
   \<and> scoringPlayers (analyze [ex_answer ''p1'' ''ann'' ''constructor'',
                              ex_answer ''p2'' ''bob'' ''constructor'']) = []
   \<and> spec_majorityAnswer [ex_answer ''p1'' ''ann'' ''constructor'',
                          ex_answer ''p2'' ''bob'' ''constructor''] = Some ''constructor''
   \<and> spec_scoringPlayers [ex_answer ''p1'' ''ann'' ''constructor'',
                          ex_answer ''p2'' ''bob'' ''constructor''] = [''p1'', ''p2'']"
  by code_simp

text \<open>
  Claim C8 at the input where it fails.  Ann and Bob answer \<open>dog\<close>, Cy answers
  \<open>constructor\<close>.  Exactly one canonical text has a group of size 1 and Cy submitted it;
  the code holds a string under \<^verbatim>\<open>answerCounts["constructor"]\<close>, finds no count equal to
  1 and reports no unique answerer.
\<close>

theorem analyze_constructor_no_unique:
  "uniqueAnswerPlayer (analyze [ex_answer ''p1'' ''ann'' ''dog'', ex_answer ''p2'' ''bob'' ''dog'',
                                ex_answer ''p3'' ''cy'' ''constructor'']) = None
   \<and> spec_uniqueAnswerer [ex_answer ''p1'' ''ann'' ''dog'', ex_answer ''p2'' ''bob'' ''dog'',
                          ex_answer ''p3'' ''cy'' ''constructor''] = Some ''p3''"
  by code_simp

section \<open>Answer normaliser\<close>

text \<open>
  The normaliser is not idempotent: it removes one trailing \<open>s\<close> per call, so \<open>ss\<close>
  becomes \<open>s\<close> and \<open>s\<close> becomes the empty string.
\<close>

theorem normalizeAnswer_not_idempotent:
  "normalizeAnswer ''ss'' = ''s'' \<and> normalizeAnswer (normalizeAnswer ''ss'') = []
   \<and> normalizeAnswer (normalizeAnswer ''ss'') \<noteq> normalizeAnswer ''ss''"
  by code_simp

lemma to_lower_idem: "to_lower (to_lower c) = to_lower c"
  by (auto simp: to_lower_def is_upper_def Let_def)

lemma to_lower_space: "to_lower (CHR '' '') = CHR '' ''"
  by (simp add: to_lower_def is_upper_def)

lemma to_lower_S_eval: "to_lower (CHR ''S'') = CHR ''s''"
  by code_simp

lemma to_lower_S: "to_lower c = c \<Longrightarrow> c \<noteq> CHR ''S''"
  using to_lower_S_eval by auto

lemma space_not_word: "is_space c \<Longrightarrow> \<not> is_word c"
  by (auto simp: is_space_def is_word_def Let_def)

lemma is_space_blank: "is_space (CHR '' '')"
  by (simp add: is_space_def)

subsection \<open>Trimming\<close>

lemma set_trim: "set (trim s) \<subseteq> set s"
proof -
  have "set (trim s) \<subseteq> set (dropWhile is_space s)"
    unfolding trim_def using set_dropWhileD [of _ is_space "rev (dropWhile is_space s)"] by auto
  also have "\<dots> \<subseteq> set s" using set_dropWhileD [of _ is_space s] by auto
  finally show ?thesis .
qed

lemma length_trim: "length (trim s) \<le> length s"
proof -
  have "length (trim s) \<le> length (dropWhile is_space s)"
    unfolding trim_def using length_dropWhile_le [of is_space "rev (dropWhile is_space s)"] by simp
  also have "\<dots> \<le> length s" by (rule length_dropWhile_le)
  finally show ?thesis .
qed

lemma trimmed_fix: "trimmed s \<Longrightarrow> trim s = s"
proof (cases s)
  case Nil
  then show ?thesis by (simp add: trim_def)
next
  case (Cons c cs)
  assume "trimmed s"
  then have h: "\<not> is_space (hd s)" and l: "\<not> is_space (last s)"
    using Cons by (simp_all add: trimmed_def)
  have 1: "dropWhile is_space s = s" using h Cons by simp
  obtain a as where r: "rev s = a # as" using Cons by (cases "rev s") simp_all
  have "hd (rev s) = last s" using Cons by (simp add: hd_rev)
  then have "\<not> is_space a" using l r by simp
  then have 2: "dropWhile is_space (rev s) = rev s" unfolding r by simp
  show ?thesis by (simp add: trim_def 1 2)
qed

lemma dropWhile_hd: "dropWhile P xs \<noteq> [] \<Longrightarrow> \<not> P (hd (dropWhile P xs))"
  using hd_dropWhile by blast

lemma last_dropWhile: "dropWhile P xs \<noteq> [] \<Longrightarrow> last (dropWhile P xs) = last xs"
  by (induction xs) (auto split: if_splits)

lemma trimmed_trim: "trimmed (trim s)"
proof (cases "trim s = []")
  case True
  then show ?thesis by (simp add: trimmed_def)
next
  case False
  let ?u = "dropWhile is_space s"
  let ?v = "dropWhile is_space (rev ?u)"
  have t: "trim s = rev ?v" by (simp add: trim_def)
  have v: "?v \<noteq> []" using False t by simp
  have u: "?u \<noteq> []"
  proof
    assume "?u = []"
    then have "?v = []" by (simp only: rev.simps dropWhile.simps)
    then show False using v by (simp only:)
  qed
  have "last (trim s) = hd ?v" using v by (simp add: t last_rev)
  then have l: "\<not> is_space (last (trim s))" using dropWhile_hd [OF v] by simp
  have "hd (trim s) = last ?v" using v by (simp add: t hd_rev)
  also have "\<dots> = last (rev ?u)" using v by (rule last_dropWhile)
  also have "\<dots> = hd ?u" using u by (simp add: last_rev)
  finally have h: "\<not> is_space (hd (trim s))" using dropWhile_hd [OF u] by simp
  show ?thesis using h l by (simp add: trimmed_def)
qed

lemma trim_idem: "trim (trim s) = trim s"
  by (rule trimmed_fix [OF trimmed_trim])

subsection \<open>Collapsing white space\<close>

lemma length_collapse: "length (collapse_spaces s) \<le> length s"
proof (induction s rule: collapse_spaces.induct)
  case 1
  then show ?case by simp
next
  case (2 c cs)
  show ?case
  proof (cases "is_space c")
    case True
    have "length (collapse_spaces (dropWhile is_space cs)) \<le> length (dropWhile is_space cs)"
      using 2 True by simp
    also have "\<dots> \<le> length cs" by (rule length_dropWhile_le)
    finally show ?thesis using True by simp
  next
    case False
    then show ?thesis using 2 by simp
  qed
qed

lemma set_collapse: "set (collapse_spaces s) \<subseteq> {c \<in> set s. \<not> is_space c} \<union> {CHR '' ''}"
proof (induction s rule: collapse_spaces.induct)
  case 1
  then show ?case by simp
next
  case (2 c cs)
  show ?case
  proof (cases "is_space c")
    case True
    have "set (dropWhile is_space cs) \<subseteq> set cs" using set_dropWhileD by fastforce
    then show ?thesis using 2 True by auto
  next
    case False
    then show ?thesis using 2 by auto
  qed
qed

lemma collapse_fix:
  "\<forall>c\<in>set s. is_space c \<longrightarrow> c = CHR '' '' \<Longrightarrow> \<not> double_space s \<Longrightarrow> collapse_spaces s = s"
proof (induction s rule: collapse_spaces.induct)
  case 1
  then show ?case by simp
next
  case (2 c cs)
  have nd: "\<not> double_space cs" using "2.prems"(2) by (cases cs) auto
  have sp: "\<forall>c\<in>set cs. is_space c \<longrightarrow> c = CHR '' ''" using "2.prems"(1) by simp
  show ?case
  proof (cases "is_space c")
    case True
    then have c: "c = CHR '' ''" using "2.prems"(1) by simp
    have "dropWhile is_space cs = cs"
    proof (cases cs)
      case Nil
      then show ?thesis by simp
    next
      case (Cons b bs)
      have "b \<noteq> CHR '' ''" using "2.prems"(2) c Cons by simp
      then have "\<not> is_space b" using sp Cons by auto
      then show ?thesis using Cons by simp
    qed
    then show ?thesis using "2.IH"(1) [OF True] sp nd True c by simp
  next
    case False
    then show ?thesis using "2.IH"(2) sp nd by simp
  qed
qed

lemma collapse_shorter: "double_space s \<Longrightarrow> length (collapse_spaces s) < length s"
proof (induction s rule: collapse_spaces.induct)
  case 1
  then show ?case by simp
next
  case (2 c cs)
  then obtain b bs where cs: "cs = b # bs" by (cases cs) auto
  show ?case
  proof (cases "is_space c")
    case True
    show ?thesis
    proof (cases "is_space b")
      case True
      have "length (collapse_spaces (dropWhile is_space cs)) \<le> length (dropWhile is_space cs)"
        by (rule length_collapse)
      also have "\<dots> = length (dropWhile is_space bs)" using True cs by simp
      also have "\<dots> \<le> length bs" by (rule length_dropWhile_le)
      finally show ?thesis using \<open>is_space c\<close> cs by simp
    next
      case False
      then have "b \<noteq> CHR '' ''" using is_space_blank by auto
      then have "double_space cs" using "2.prems" cs by simp
      moreover have "dropWhile is_space cs = cs" using False cs by simp
      ultimately show ?thesis using "2.IH"(1) [OF True] True by simp
    qed
  next
    case False
    then have "c \<noteq> CHR '' ''" using is_space_blank by auto
    then have "double_space cs" using "2.prems" cs by simp
    then show ?thesis using "2.IH"(2) [OF False] False by simp
  qed
qed

subsection \<open>Plural and punctuation\<close>

lemma set_strip_plural: "set (strip_plural s) \<subseteq> set s"
  by (auto simp: strip_plural_def dest: in_set_butlastD)

lemma length_strip_plural: "length (strip_plural s) \<le> length s"
  by (simp add: strip_plural_def)

lemma strip_plural_shorter: "ends_in_s s \<Longrightarrow> length (strip_plural s) < length s"
  by (simp add: strip_plural_def ends_in_s_def)

lemma strip_plural_fix:
  "\<not> ends_in_s s \<Longrightarrow> \<forall>c\<in>set s. to_lower c = c \<Longrightarrow> strip_plural s = s"
proof (cases "s = []")
  case True
  then show ?thesis by (simp add: strip_plural_def)
next
  case False
  assume a: "\<not> ends_in_s s" and b: "\<forall>c\<in>set s. to_lower c = c"
  have "last s \<in> set s" using False by simp
  then have "last s \<noteq> CHR ''S''" using b to_lower_S by blast
  moreover have "last s \<noteq> CHR ''s''" using a False by (simp add: ends_in_s_def)
  ultimately show ?thesis by (simp add: strip_plural_def)
qed

lemma length_remove_punctuation: "length (remove_punctuation s) \<le> length s"
  by (simp add: remove_punctuation_def)

lemma remove_punctuation_fix: "\<forall>c\<in>set s. \<not> is_punct c \<Longrightarrow> remove_punctuation s = s"
  by (simp add: remove_punctuation_def)

subsection \<open>Articles\<close>

lemma length_keep_word: "length (keep_word w) \<le> length w"
  by (simp add: keep_word_def)

lemma set_keep_word: "set (keep_word w) \<subseteq> set w"
  by (simp add: keep_word_def)

lemma length_takeWhile_dropWhile:
  "length (takeWhile P xs) + length (dropWhile P xs) = length xs"
  by (metis length_append takeWhile_dropWhile_id)

lemma remove_articles_unfold:
  "is_word c \<Longrightarrow>
   remove_articles (c # cs)
     = keep_word (takeWhile is_word (c # cs)) @ remove_articles (dropWhile is_word cs)"
  by simp

lemma length_remove_articles: "length (remove_articles s) \<le> length s"
proof (induction s rule: remove_articles.induct)
  case 1
  then show ?case by simp
next
  case (2 c cs)
  show ?case
  proof (cases "is_word c")
    case True
    define w where "w = takeWhile is_word (c # cs)"
    define r where "r = dropWhile is_word cs"
    have ra: "remove_articles (c # cs) = keep_word w @ remove_articles r"
      unfolding w_def r_def by (rule remove_articles_unfold [OF True])
    have "length w + length r = length (c # cs)"
      unfolding w_def r_def using True length_takeWhile_dropWhile [of is_word cs] by simp
    moreover have "length (keep_word w) \<le> length w" by (rule length_keep_word)
    moreover have "length (remove_articles r) \<le> length r"
      unfolding r_def using "2.IH"(1) [OF True] .
    ultimately show ?thesis unfolding ra by simp
  next
    case False
    then show ?thesis using 2 by simp
  qed
qed

lemma set_remove_articles: "set (remove_articles s) \<subseteq> set s"
proof (induction s rule: remove_articles.induct)
  case 1
  then show ?case by simp
next
  case (2 c cs)
  show ?case
  proof (cases "is_word c")
    case True
    have a: "set (keep_word (takeWhile is_word (c # cs))) \<subseteq> set (c # cs)"
      using set_keep_word [of "takeWhile is_word (c # cs)"] set_takeWhileD [of _ is_word "c # cs"]
      by blast
    have b: "set (remove_articles (dropWhile is_word cs)) \<subseteq> set (c # cs)"
      using 2 True set_dropWhileD [of _ is_word cs] by fastforce
    show ?thesis using a b True by simp
  next
    case False
    then show ?thesis using 2 by auto
  qed
qed

lemma takeWhile_stop: "\<not> P c \<Longrightarrow> takeWhile P (xs @ c # t) = takeWhile P xs"
  by (induction xs) auto

lemma dropWhile_stop: "\<not> P c \<Longrightarrow> dropWhile P (xs @ c # t) = dropWhile P xs @ c # t"
  by (induction xs) auto

lemma remove_articles_split:
  "\<not> is_word c \<Longrightarrow> remove_articles (u @ c # t) = remove_articles u @ c # remove_articles t"
proof (induction u rule: remove_articles.induct)
  case 1
  then show ?case by simp
next
  case (2 a as)
  show ?case
  proof (cases "is_word a")
    case True
    have tw: "takeWhile is_word (a # as @ c # t) = takeWhile is_word (a # as)"
      using takeWhile_stop [of is_word c "a # as" t] "2.prems" by simp
    have dw: "dropWhile is_word (as @ c # t) = dropWhile is_word as @ c # t"
      using dropWhile_stop [of is_word c as t] "2.prems" by simp
    have "remove_articles ((a # as) @ c # t)
            = keep_word (takeWhile is_word (a # as))
                @ remove_articles (dropWhile is_word as @ c # t)"
      using True tw dw by simp
    also have "\<dots> = keep_word (takeWhile is_word (a # as))
                @ remove_articles (dropWhile is_word as) @ c # remove_articles t"
      using "2.IH"(1) [OF True "2.prems"] by simp
    also have "\<dots> = remove_articles (a # as) @ c # remove_articles t"
      using True by simp
    finally show ?thesis .
  next
    case False
    then show ?thesis using 2 by simp
  qed
qed

lemma remove_articles_word:
  assumes "w \<noteq> []" and "\<forall>c\<in>set w. is_word c"
  shows "remove_articles w = keep_word w"
proof -
  obtain a as where w: "w = a # as" using assms(1) by (cases w) auto
  have a: "is_word a" using assms(2) w by simp
  have tw: "takeWhile is_word (a # as) = a # as" using assms(2) w by simp
  have dw: "dropWhile is_word as = []" using assms(2) w by simp
  have "remove_articles (a # as) = keep_word (a # as) @ remove_articles []"
    using remove_articles_unfold [OF a, of as] unfolding tw dw .
  then show ?thesis using w by simp
qed

lemma remove_articles_keep_word: "remove_articles (keep_word w) = keep_word w" if "\<forall>c\<in>set w. is_word c"
proof (cases "keep_word w = []")
  case True
  then show ?thesis by simp
next
  case False
  then have k: "keep_word w = w" by (simp add: keep_word_def split: if_splits)
  then have "w \<noteq> []" using False by auto
  then show ?thesis using that k remove_articles_word [of w] by simp
qed

lemma remove_articles_idem: "remove_articles (remove_articles s) = remove_articles s"
proof (induction s rule: remove_articles.induct)
  case 1
  then show ?case by simp
next
  case (2 c cs)
  show ?case
  proof (cases "is_word c")
    case False
    then show ?thesis using 2 by simp
  next
    case True
    define w where "w = takeWhile is_word (c # cs)"
    define r where "r = dropWhile is_word cs"
    have w: "\<forall>c\<in>set w. is_word c" unfolding w_def using set_takeWhileD by fastforce
    have ra: "remove_articles (c # cs) = keep_word w @ remove_articles r"
      unfolding w_def r_def by (rule remove_articles_unfold [OF True])
    have ih: "remove_articles (remove_articles r) = remove_articles r"
      unfolding r_def using "2.IH"(1) [OF True] .
    have "remove_articles (keep_word w @ remove_articles r) = keep_word w @ remove_articles r"
    proof (cases r)
      case Nil
      then show ?thesis using remove_articles_keep_word [OF w] by simp
    next
      case (Cons b bs)
      have nb: "\<not> is_word b" using hd_dropWhile [of is_word cs] Cons unfolding r_def by auto
      have rr: "remove_articles r = b # remove_articles bs" using Cons nb by simp
      have "remove_articles (keep_word w @ remove_articles r)
              = remove_articles (keep_word w @ b # remove_articles bs)" by (simp only: rr)
      also have "\<dots> = remove_articles (keep_word w) @ b # remove_articles (remove_articles bs)"
        by (rule remove_articles_split [OF nb])
      also have "\<dots> = keep_word w @ remove_articles (b # remove_articles bs)"
        using nb remove_articles_keep_word [OF w] by simp
      also have "\<dots> = keep_word w @ remove_articles r" using ih rr by simp
      finally show ?thesis .
    qed
    then show ?thesis unfolding ra .
  qed
qed

lemma remove_articles_snoc:
  "\<not> is_word c \<Longrightarrow> remove_articles (u @ [c]) = remove_articles u @ [c]"
  using remove_articles_split [of c u "[]"] by simp

lemma article_free_lstrip:
  "remove_articles v = v \<Longrightarrow> remove_articles (dropWhile is_space v) = dropWhile is_space v"
proof (induction v)
  case Nil
  then show ?case by simp
next
  case (Cons c cs)
  show ?case
  proof (cases "is_space c")
    case True
    then have "\<not> is_word c" by (rule space_not_word)
    then have "remove_articles cs = cs" using Cons.prems by simp
    then show ?thesis using Cons.IH True by simp
  next
    case False
    then show ?thesis using Cons.prems by simp
  qed
qed

lemma article_free_rstrip:
  "remove_articles v = v \<Longrightarrow>
   remove_articles (rev (dropWhile is_space (rev v))) = rev (dropWhile is_space (rev v))"
proof (induction v rule: rev_induct)
  case Nil
  then show ?case by simp
next
  case (snoc c u)
  show ?case
  proof (cases "is_space c")
    case True
    then have nw: "\<not> is_word c" by (rule space_not_word)
    have "remove_articles u @ [c] = u @ [c]"
      using snoc.prems remove_articles_snoc [OF nw, of u] by simp
    then have "remove_articles u = u" by simp
    then show ?thesis using snoc.IH True by simp
  next
    case False
    then show ?thesis using snoc.prems by simp
  qed
qed

lemma article_free_trim: "remove_articles v = v \<Longrightarrow> remove_articles (trim v) = trim v"
  unfolding trim_def by (intro article_free_rstrip article_free_lstrip)

lemma normal_form_normalizeAnswer: "normal_form (normalizeAnswer x)"
proof (cases "x = []")
  case True
  then show ?thesis by (simp add: normalizeAnswer_def normal_form_def trimmed_def)
next
  case False
  define z where "z = collapse_spaces (trim (toLowerCase x))"
  define u where "u = strip_plural (remove_punctuation z)"
  define v where "v = remove_articles u"
  have y: "normalizeAnswer x = trim v"
    using False by (simp add: normalizeAnswer_def z_def u_def v_def)
  have zc: "to_lower c = c \<and> (is_space c \<longrightarrow> c = CHR '' '')" if "c \<in> set z" for c
  proof -
    from that set_collapse [of "trim (toLowerCase x)"]
    have "c = CHR '' '' \<or> (c \<in> set (trim (toLowerCase x)) \<and> \<not> is_space c)"
      unfolding z_def by auto
    then show ?thesis
    proof
      assume "c = CHR '' ''"
      then show ?thesis by (simp add: to_lower_space)
    next
      assume a: "c \<in> set (trim (toLowerCase x)) \<and> \<not> is_space c"
      then have "c \<in> set (toLowerCase x)" using set_trim by blast
      then obtain c' where "c = to_lower c'" by (auto simp: toLowerCase_def)
      then show ?thesis using a by (simp add: to_lower_idem)
    qed
  qed
  have uz: "set u \<subseteq> set (remove_punctuation z)"
    unfolding u_def by (rule set_strip_plural)
  have up: "\<not> is_punct c \<and> c \<in> set z" if "c \<in> set u" for c
    using that uz by (auto simp: remove_punctuation_def)
  have yu: "set (trim v) \<subseteq> set u"
    using set_trim [of v] set_remove_articles [of u] unfolding v_def by blast
  have chars: "\<forall>c\<in>set (trim v). to_lower c = c \<and> \<not> is_punct c \<and> (is_space c \<longrightarrow> c = CHR '' '')"
    using yu up zc by blast
  have "remove_articles v = v" unfolding v_def by (rule remove_articles_idem)
  then have "remove_articles (trim v) = trim v" by (rule article_free_trim)
  then show ?thesis unfolding y normal_form_def using chars trimmed_trim by blast
qed

lemma length_normalizeAnswer_steps:
  "length (trim (remove_articles (strip_plural (remove_punctuation s)))) \<le> length s"
proof -
  have "length (trim (remove_articles (strip_plural (remove_punctuation s))))
          \<le> length (remove_articles (strip_plural (remove_punctuation s)))" by (rule length_trim)
  also have "\<dots> \<le> length (strip_plural (remove_punctuation s))" by (rule length_remove_articles)
  also have "\<dots> \<le> length (remove_punctuation s)" by (rule length_strip_plural)
  also have "\<dots> \<le> length s" by (rule length_remove_punctuation)
  finally show ?thesis .
qed

lemma normalizeAnswer_fixed_iff:
  assumes "normal_form y"
  shows "normalizeAnswer y = y \<longleftrightarrow> \<not> ends_in_s y \<and> \<not> double_space y"
proof (cases "y = []")
  case True
  then show ?thesis by (simp add: normalizeAnswer_def ends_in_s_def)
next
  case False
  have low: "toLowerCase y = y"
    using assms by (auto simp: normal_form_def toLowerCase_def intro: map_idI)
  have tr: "trim y = y" using assms by (simp add: normal_form_def trimmed_fix)
  have sp: "\<forall>c\<in>set y. is_space c \<longrightarrow> c = CHR '' ''" using assms by (simp add: normal_form_def)
  have pu: "remove_punctuation y = y"
    using assms by (intro remove_punctuation_fix) (simp add: normal_form_def)
  have lo: "\<forall>c\<in>set y. to_lower c = c" using assms by (simp add: normal_form_def)
  have ar: "remove_articles y = y" using assms by (simp add: normal_form_def)
  have n: "normalizeAnswer y
             = trim (remove_articles (strip_plural (remove_punctuation (collapse_spaces y))))"
    using False by (simp add: normalizeAnswer_def low tr)
  show ?thesis
  proof (cases "double_space y")
    case True
    have "length (normalizeAnswer y) \<le> length (collapse_spaces y)"
      unfolding n by (rule length_normalizeAnswer_steps)
    also have "\<dots> < length y" using True by (rule collapse_shorter)
    finally have "normalizeAnswer y \<noteq> y" by auto
    then show ?thesis using True by simp
  next
    case nd: False
    have co: "collapse_spaces y = y" using sp nd by (rule collapse_fix)
    show ?thesis
    proof (cases "ends_in_s y")
      case True
      have "length (normalizeAnswer y) \<le> length (remove_articles (strip_plural y))"
        unfolding n co pu by (rule length_trim)
      also have "\<dots> \<le> length (strip_plural y)" by (rule length_remove_articles)
      also have "\<dots> < length y" using True by (rule strip_plural_shorter)
      finally have "normalizeAnswer y \<noteq> y" by auto
      then show ?thesis using True by simp
    next
      case False
      have "strip_plural y = y" using False lo by (rule strip_plural_fix)
      then have "normalizeAnswer y = y" unfolding n co pu by (simp add: ar tr)
      then show ?thesis using False nd by simp
    qed
  qed
qed

text \<open>
  Claim C6, as the code has it.  Normalising a normalised answer changes nothing exactly
  when the normalised answer does not end in \<open>s\<close> and has no two spaces in a row (the
  plural rule removes one more \<open>s\<close>, and the space left on each side of a removed article
  or punctuation mark is collapsed only by the next call).
\<close>

theorem normalizeAnswer_idempotent_iff:
  "normalizeAnswer (normalizeAnswer x) = normalizeAnswer x
     \<longleftrightarrow> \<not> ends_in_s (normalizeAnswer x) \<and> \<not> double_space (normalizeAnswer x)"
  by (rule normalizeAnswer_fixed_iff [OF normal_form_normalizeAnswer])

theorem normalizeAnswer_idempotent_iff_witness:
  "normalizeAnswer '' The  Cats! '' = ''cat''
   \<and> normalizeAnswer (normalizeAnswer '' The  Cats! '') = normalizeAnswer '' The  Cats! ''
   \<and> normalizeAnswer ''a cat, the dog'' = ''cat  dog''
   \<and> normalizeAnswer (normalizeAnswer ''a cat, the dog'') \<noteq> normalizeAnswer ''a cat, the dog''"
proof -
  have a: "normalizeAnswer '' The  Cats! '' = ''cat''" by code_simp
  have b: "normalizeAnswer ''a cat, the dog'' = ''cat  dog''" by code_simp
  have c: "\<not> ends_in_s ''cat'' \<and> \<not> double_space ''cat''" by code_simp
  have e: "double_space ''cat  dog''" by code_simp
  show ?thesis
    using normalizeAnswer_idempotent_iff [of "'' The  Cats! ''"]
      normalizeAnswer_idempotent_iff [of "''a cat, the dog''"]
    unfolding a b using c e by simp
qed

section \<open>Submitting an answer\<close>

text \<open>
  Claim C4 at the inputs where it fails.  In a round with two connected players and no
  answer yet, a submission from a socket that belongs to no player raises the counter to 1
  and stores no answer.  When Ann submits twice, the second submission is rejected by the
  unique index and still raises the counter: 2 for one stored answer.  The older handler,
  which stores the answer before it touches the counter, leaves the counter at 0 on the
  unknown socket.
\<close>

theorem submit_answer_counter_without_answer:
  "map playersAnswered (games (fst (submit_answer ''s9'' ''g1'' ''dog'' db_fresh))) = [1]
   \<and> answers (fst (submit_answer ''s9'' ''g1'' ''dog'' db_fresh)) = []
   \<and> map playersAnswered
        (games (fst (submit_answer ''s1'' ''g1'' ''dog''
                       (fst (submit_answer ''s1'' ''g1'' ''dog'' db_fresh))))) = [2]
   \<and> map playerId
        (answers (fst (submit_answer ''s1'' ''g1'' ''dog''
                         (fst (submit_answer ''s1'' ''g1'' ''dog'' db_fresh))))) = [''p1'']
   \<and> map playersAnswered (games (fst (submit_answer_v1 ''s9'' ''g1'' ''dog'' db_fresh))) = [0]"
  by code_simp

section \<open>Room status\<close>

text \<open>
  Claim C5 at the input where it fails.  The host of a finished game sends
  \<^verbatim>\<open>start_game\<close>: the handler has no test of the status and writes \<open>in-progress\<close> over
  \<open>completed\<close>, whatever the catalogue and the draw.
\<close>

theorem start_game_reopens_completed:
  "map status (games db_finished) = [Completed]
   \<and> map status (games (fst (start_game qs rnd ''s1'' ''g1'' ''r2'' db_finished))) = [InProgress]"
  by (simp add: start_game_def db_finished_def ex_db_def ex_game_def ex_player_def
      insert_round_def new_round_def Let_def)

section \<open>When a submission closes the round\<close>

lemma closes_round_append: "closes_round (xs @ ys) = (closes_round xs \<or> closes_round ys)"
  by (simp add: closes_round_def)

lemma closes_round_to_sender: "\<not> closes_round (to_sender sock msg)"
  by (simp add: closes_round_def to_sender_def)

lemma closes_round_close_round:
  "closes_round (snd (close_round sock gameId gm r d)) = (analyzeRoundAnswers (r_id r) (answers d) \<noteq> None)"
  by (auto simp: close_round_def Let_def closes_round_def to_sender_def split: option.splits)

lemma closes_round_close_round_v1:
  "closes_round (snd (close_round_v1 sock gameId gm r d)) = (analyzeRoundAnswers (r_id r) (answers d) \<noteq> None)"
  by (auto simp: close_round_v1_def Let_def closes_round_def to_sender_def split: option.splits)

lemma insert_answer_games [simp]:
  "insert_answer a (d\<lparr>games := gs\<rparr>) = map_option (\<lambda>d'. d'\<lparr>games := gs\<rparr>) (insert_answer a d)"
  by (simp add: insert_answer_def)

lemma insert_answer_Some:
  "insert_answer a d = Some d' \<Longrightarrow> d' = d\<lparr>answers := answers d @ [a]\<rparr>"
  by (auto simp: insert_answer_def split: if_splits)

lemma analyze_after_insert:
  "analyzeRoundAnswers (r_id r) (xs @ [new_answer gameId r p text]) \<noteq> None"
  by (simp add: analyzeRoundAnswers_def new_answer_def Let_def)

lemma connected_count_simps [simp]:
  "connected_count g (d\<lparr>games := gs\<rparr>) = connected_count g d"
  "connected_count g (d\<lparr>answers := as\<rparr>) = connected_count g d"
  by (simp_all add: connected_count_def)

lemma players_of_simps [simp]:
  "players_of g (d\<lparr>games := gs\<rparr>) = players_of g d"
  "players_of g (d\<lparr>answers := as\<rparr>) = players_of g d"
  by (simp_all add: players_of_def)

lemma find_round_simps [simp]:
  "find_round g n (d\<lparr>games := gs\<rparr>) = find_round g n d"
  by (simp_all add: find_round_def)

lemma snd_case_append: "snd (case p of (a, b) \<Rightarrow> (a, f b)) = f (snd p)"
  by (cases p) simp

lemma closes_round_Nil [simp]: "\<not> closes_round []"
  by (simp add: closes_round_def)

lemma analyze_after_insert_ex [simp]:
  "\<exists>y. analyzeRoundAnswers (r_id r) (xs @ [new_answer gameId r p text]) = Some y"
  using analyze_after_insert [of r xs gameId p "text"] by blast

lemma closes_round_Cons: "closes_round (x # xs) = (is_round_completed x \<or> closes_round xs)"
  by (simp add: closes_round_def)

lemma closes_round_single [simp]:
  "\<not> closes_round [(t, PlayerAnswered a b)]" "\<not> closes_round [(t, PlayerAnsweredV1 u c)]"
  by (simp_all add: closes_round_def)

lemma submit_answer_closes:
  "closes_round (snd (submit_answer sock gameId text d))
     \<longleftrightarrow> (case accepted sock gameId text d of
            None \<Rightarrow> False
          | Some n \<Rightarrow> n \<ge> connected_count gameId d)"
  by (auto simp: submit_answer_def accepted_def Let_def closes_round_append closes_round_to_sender
        closes_round_close_round analyze_after_insert increment_def snd_case_append closes_round_Cons
      split: option.splits dest!: insert_answer_Some)

lemma submit_answer_v1_closes:
  "closes_round (snd (submit_answer_v1 sock gameId text d))
     \<longleftrightarrow> (case accepted_v1 sock gameId text d of
            None \<Rightarrow> False
          | Some n \<Rightarrow> n = int (length (players_of gameId d)))"
  by (auto simp: submit_answer_v1_def accepted_v1_def Let_def closes_round_append closes_round_to_sender
        closes_round_close_round_v1 analyze_after_insert increment_def snd_case_append closes_round_Cons
      split: option.splits dest!: insert_answer_Some)

text \<open>
  Claim C1, as the handler of unnamed/part_000 has it.  A submission runs the round-closing
  logic exactly when it gets as far as the test (the game is in progress, the sender is a
  player of the game, the current round exists, the answer is stored) and the counter after
  the increment is at least the number of connected players.
\<close>

theorem submit_answer_closes_iff:
  "closes_round (snd (submit_answer sock gameId text d))
     \<longleftrightarrow> (case accepted sock gameId text d of
            None \<Rightarrow> False
          | Some n \<Rightarrow> n \<ge> connected_count gameId d)"
  by (rule submit_answer_closes)

theorem submit_answer_closes_iff_witness:
  "accepted ''s3'' ''g1'' ''cat'' db_late = Some 3 \<and> connected_count ''g1'' db_late = 1
   \<and> closes_round (snd (submit_answer ''s3'' ''g1'' ''cat'' db_late))
   \<and> accepted ''s1'' ''g1'' ''dog'' db_fresh = Some 1 \<and> connected_count ''g1'' db_fresh = 2
   \<and> \<not> closes_round (snd (submit_answer ''s1'' ''g1'' ''dog'' db_fresh))
   \<and> accepted ''s9'' ''g1'' ''cat'' db_single = None
   \<and> \<not> closes_round (snd (submit_answer ''s9'' ''g1'' ''cat'' db_single))"
proof -
  have a: "accepted ''s3'' ''g1'' ''cat'' db_late = Some 3" by code_simp
  have b: "connected_count ''g1'' db_late = 1" by code_simp
  have c: "accepted ''s1'' ''g1'' ''dog'' db_fresh = Some 1" by code_simp
  have e: "connected_count ''g1'' db_fresh = 2" by code_simp
  have f: "accepted ''s9'' ''g1'' ''cat'' db_single = None" by code_simp
  show ?thesis
    using submit_answer_closes_iff [of "''s3''" "''g1''" "''cat''" db_late]
      submit_answer_closes_iff [of "''s1''" "''g1''" "''dog''" db_fresh]
      submit_answer_closes_iff [of "''s9''" "''g1''" "''cat''" db_single]
    by (simp add: a b c e f)
qed

text \<open>
  The older handler of unnamed/part_001 counts every player of the game, so a player who
  has lost the connection keeps the round open: Ann, the only connected player, answers,
  the counter equals the number of connected players, and the round stays open, where the
  handler of unnamed/part_000 closes it.
\<close>

lemma submit_answer_v1_waits_for_disconnected:
  "accepted_v1 ''s1'' ''g1'' ''dog'' db_half = Some 1
   \<and> connected_count ''g1'' db_half = 1
   \<and> \<not> closes_round (snd (submit_answer_v1 ''s1'' ''g1'' ''dog'' db_half))
   \<and> closes_round (snd (submit_answer ''s1'' ''g1'' ''dog'' db_half))"
  by code_simp

text \<open>
  The claim with "equals the number of connected players" fails in both directions.  Cy
  submits after Ann and Bob have answered and disconnected: the counter becomes 3, one
  player is connected, and the round closes.  A socket that belongs to no player submits
  to a room with one connected player and no answer: the counter becomes 1, one player is
  connected, and the round does not close.
\<close>

theorem submit_answer_closes_counterexample:
  "\<not> (closes_round (snd (submit_answer ''s3'' ''g1'' ''cat'' db_late))
        \<longleftrightarrow> post_increment ''g1'' db_late = Some (connected_count ''g1'' db_late))
   \<and> \<not> (closes_round (snd (submit_answer ''s9'' ''g1'' ''cat'' db_single))
        \<longleftrightarrow> post_increment ''g1'' db_single = Some (connected_count ''g1'' db_single))"
  by code_simp

section \<open>Closing a round more than once\<close>

text \<open>
  Claim C2 at inputs where it fails; the requests are handled one after the other, which is
  one of the schedules of concurrent requests.

  First run: Bob's connection is lost, Ann answers and closes round 1 as the only connected
  player; Ann's connection is lost, Bob reconnects and answers in the same round, and as
  the only connected player closes round 1 again.  The round's result is broadcast twice
  and Ann is paid twice for one answer.

  Second run: three connected players and no change of connection.  Ann's repeated
  submission is rejected but counted, so Bob's answer closes round 1 before Cy has
  answered; two more rejected submissions and Cy's answer close round 1 a second time.
\<close>

theorem round_closed_twice:
  "length (filter is_round_completed
             (run_emitted False [''q1''] ex_reconnect_requests empty_db)) = 2
   \<and> map currentRound (games (run False [''q1''] ex_reconnect_requests empty_db)) = [1]
   \<and> map roundNumber (rounds (run False [''q1''] ex_reconnect_requests empty_db)) = [1]
   \<and> map (\<lambda>a. (roundId a, playerId a))
        (answers (run False [''q1''] ex_reconnect_requests empty_db))
      = [(''r1'', ''p1''), (''r1'', ''p2'')]
   \<and> map score (players (run False [''q1''] ex_reconnect_requests empty_db)) = [2, 1]
   \<and> length (filter is_round_completed
               (run_emitted False [''q1''] ex_resubmit_requests empty_db)) = 2
   \<and> map currentRound (games (run False [''q1''] ex_resubmit_requests empty_db)) = [1]
   \<and> map isConnected (players (run False [''q1''] ex_resubmit_requests empty_db))
      = [True, True, True]
   \<and> map score (players (run False [''q1''] ex_resubmit_requests empty_db)) = [2, 2, 0]"
  by code_simp

section \<open>Scores\<close>

lemma find_by_id:
  "distinct (map p_id ps) \<Longrightarrow> p \<in> set ps \<Longrightarrow> find (\<lambda>q. p_id q = p_id p) ps = Some p"
  by (induction ps) (auto simp: image_iff)

lemma find_SomeD: "find P xs = Some y \<Longrightarrow> y \<in> set xs \<and> P y"
  by (induction xs) (auto split: if_splits)

lemma find_id_None: "i \<notin> set (map p_id ps) \<Longrightarrow> find (\<lambda>q. p_id q = i) ps = None"
  by (induction ps) auto

lemma update_first_map:
  "distinct ps \<Longrightarrow> update_first P f ps = map (\<lambda>p. if Some p = find P ps then f p else p) ps"
proof (induction ps)
  case Nil
  then show ?case by simp
next
  case (Cons x xs)
  show ?case
  proof (cases "P x")
    case True
    have "map (\<lambda>p. if p = x then f p else p) xs = xs"
      using Cons.prems by (auto intro: map_idI)
    with True show ?thesis by simp
  next
    case False
    have "Some x \<noteq> find P xs"
      using Cons.prems find_SomeD [of P xs x] by auto
    with False Cons show ?thesis by simp
  qed
qed

lemma scores_ok_map:
  assumes "pl_inv ps"
    and "\<And>p. p \<in> set ps \<Longrightarrow> p_id (g p) = p_id p
            \<and> score (g p) = score p + (if p_id p \<in> set paid then 1 else 0)"
  shows "scores_ok paid ps (map g ps) \<and> pl_inv (map g ps)"
proof -
  have d: "distinct (map p_id ps)" and nn: "\<forall>p\<in>set ps. 0 \<le> score p"
    using assms(1) by (simp_all add: pl_inv_def)
  have ids: "map p_id (map g ps) = map p_id ps" using assms(2) by simp
  have "0 \<le> score (g p) \<and> score_step_ok paid ps (g p)" if "p \<in> set ps" for p
  proof -
    have "find (\<lambda>q. p_id q = p_id (g p)) ps = Some p"
      using find_by_id [OF d that] assms(2) [OF that] by simp
    then show ?thesis using assms(2) [OF that] nn that by (simp add: score_step_ok_def)
  qed
  then have "scores_ok paid ps (map g ps)" by (simp add: scores_ok_def list_all_iff)
  moreover have "pl_inv (map g ps)"
    unfolding pl_inv_def ids using d nn assms(2) by force
  ultimately show ?thesis by simp
qed

lemma distinct_players: "pl_inv ps \<Longrightarrow> distinct ps"
  by (auto simp: pl_inv_def dest: distinct_map [THEN iffD1])

lemma scores_ok_update_first:
  assumes "pl_inv ps"
    and "\<And>p. p_id (f p) = p_id p \<and> score (f p) = score p"
  shows "scores_ok [] ps (update_first P f ps) \<and> pl_inv (update_first P f ps)"
  unfolding update_first_map [OF distinct_players [OF assms(1)]]
  by (rule scores_ok_map [OF assms(1)]) (use assms(2) in auto)

lemma scores_ok_refl: "pl_inv ps \<Longrightarrow> scores_ok [] ps ps"
  using scores_ok_map [of ps "\<lambda>p. p" "[]"] by simp

lemma scores_ok_append:
  assumes "pl_inv ps" and "score p = 0" and "p_id p \<notin> set (map p_id ps)"
  shows "scores_ok [] ps (ps @ [p]) \<and> pl_inv (ps @ [p])"
proof -
  have "find (\<lambda>q. p_id q = p_id p) ps = None"
    using assms(3) by (rule find_id_None)
  then have "score_step_ok [] ps p" using assms(2) by (simp add: score_step_ok_def)
  moreover have "scores_ok [] ps ps" using assms(1) by (rule scores_ok_refl)
  ultimately have "scores_ok [] ps (ps @ [p])" using assms(2) by (simp add: scores_ok_def)
  moreover have "pl_inv (ps @ [p])" using assms by (auto simp: pl_inv_def)
  ultimately show ?thesis by simp
qed

lemma scores_ok_filter:
  assumes "pl_inv ps"
  shows "scores_ok [] ps (filter P ps) \<and> pl_inv (filter P ps)"
proof -
  have "scores_ok [] ps ps" using assms by (rule scores_ok_refl)
  then have "scores_ok [] ps (filter P ps)" by (simp add: scores_ok_def list_all_iff)
  moreover have "pl_inv (filter P ps)"
    using assms by (auto simp: pl_inv_def distinct_map_filter)
  ultimately show ?thesis by simp
qed

lemma players_foldl_inc_score:
  "distinct (map p_id (players d)) \<Longrightarrow> distinct ids \<Longrightarrow>
   players (foldl inc_score d ids)
     = map (\<lambda>p. if p_id p \<in> set ids then p\<lparr>score := score p + 1\<rparr> else p) (players d)"
proof (induction ids arbitrary: d)
  case Nil
  then show ?case by (simp add: map_idI)
next
  case (Cons i ids)
  let ?inc = "\<lambda>p::player. p\<lparr>score := score p + 1\<rparr>"
  have dp: "distinct (players d)" using Cons.prems(1) by (auto dest: distinct_map [THEN iffD1])
  have one: "players (inc_score d i) = map (\<lambda>p. if p_id p = i then ?inc p else p) (players d)"
  proof -
    have "players (inc_score d i)
            = map (\<lambda>p. if Some p = find (\<lambda>p. p_id p = i) (players d) then ?inc p else p) (players d)"
      by (simp add: inc_score_def update_first_map [OF dp])
    also have "\<dots> = map (\<lambda>p. if p_id p = i then ?inc p else p) (players d)"
    proof (rule map_cong [OF refl])
      fix p assume p: "p \<in> set (players d)"
      show "(if Some p = find (\<lambda>p. p_id p = i) (players d) then ?inc p else p)
            = (if p_id p = i then ?inc p else p)"
      proof (cases "p_id p = i")
        case True
        then show ?thesis using find_by_id [OF Cons.prems(1) p] by simp
      next
        case False
        then have "Some p \<noteq> find (\<lambda>p. p_id p = i) (players d)"
          using find_SomeD [of "\<lambda>p. p_id p = i" "players d" p] by auto
        with False show ?thesis by simp
      qed
    qed
    finally show ?thesis .
  qed
  have ids': "map p_id (players (inc_score d i)) = map p_id (players d)"
    unfolding one by (simp add: comp_def)
  have "players (foldl inc_score d (i # ids))
          = map (\<lambda>p. if p_id p \<in> set ids then ?inc p else p) (players (inc_score d i))"
    using Cons.IH [of "inc_score d i"] Cons.prems unfolding ids' by simp
  also have "\<dots> = map (\<lambda>p. if p_id p \<in> set (i # ids) then ?inc p else p) (players d)"
    unfolding one using Cons.prems(2) by (auto simp: comp_def intro!: map_cong)
  finally show ?case .
qed

lemma flags_scores_ok:
  "pl_inv ps \<Longrightarrow> \<forall>p. p_id (f p) = p_id p \<and> score (f p) = score p \<Longrightarrow>
     scores_ok [] ps (update_first P f ps)"
  using scores_ok_update_first [of ps f P] by simp

lemma flags_pl_inv:
  "pl_inv ps \<Longrightarrow> \<forall>p. p_id (f p) = p_id p \<and> score (f p) = score p \<Longrightarrow>
     pl_inv (update_first P f ps)"
  using scores_ok_update_first [of ps f P] by simp

lemma append_scores_ok:
  "pl_inv ps \<Longrightarrow> score p = 0 \<Longrightarrow> p_id p \<notin> p_id ` set ps \<Longrightarrow> scores_ok [] ps (ps @ [p])"
  using scores_ok_append [of ps p] by simp

lemma append_pl_inv:
  "pl_inv ps \<Longrightarrow> score p = 0 \<Longrightarrow> p_id p \<notin> p_id ` set ps \<Longrightarrow> pl_inv (ps @ [p])"
  using scores_ok_append [of ps p] by simp

lemma filter_scores_ok: "pl_inv ps \<Longrightarrow> scores_ok [] ps (filter P ps)"
  using scores_ok_filter [of ps P] by simp

lemma filter_pl_inv: "pl_inv ps \<Longrightarrow> pl_inv (filter P ps)"
  using scores_ok_filter [of ps P] by simp

lemmas good_simps = good_def db_inv_def scores_ok_refl flags_scores_ok flags_pl_inv
  append_scores_ok append_pl_inv filter_scores_ok filter_pl_inv

lemma insert_game_Some:
  "insert_game g d = Some d' \<Longrightarrow> d' = d\<lparr>games := games d @ [g]\<rparr>"
  by (auto simp: insert_game_def split: if_splits)

lemma insert_round_Some:
  "insert_round r d = Some d' \<Longrightarrow> d' = d\<lparr>rounds := rounds d @ [r]\<rparr>"
  by (auto simp: insert_round_def split: if_splits)

lemma insert_player_Some:
  "insert_player p d = Some d' \<Longrightarrow>
     d' = d\<lparr>players := players d @ [p]\<rparr> \<and> p_id p \<notin> p_id ` set (players d)"
  by (auto simp: insert_player_def split: if_splits)

lemma insert_answer_Some':
  "insert_answer a d = Some d' \<Longrightarrow>
     d' = d\<lparr>answers := answers d @ [a]\<rparr>
     \<and> (roundId a, playerId a) \<notin> (\<lambda>b. (roundId b, playerId b)) ` set (answers d)"
  by (auto simp: insert_answer_def split: if_splits)

lemma create_game_good:
  assumes "db_inv d" and "create_game v1 sock name draws gid pid now d = Some (d', out)"
  shows "good [] d d' \<and> \<not> closes_round out"
  using assms
  by (auto simp: create_game_def closes_round_def to_sender_def new_player_def good_simps
      split: option.splits dest!: insert_game_Some insert_player_Some)

lemma join_game_good:
  assumes "db_inv d" and "join_game sock code name pid d = (d', out)"
  shows "good [] d d' \<and> \<not> closes_round out"
  using assms
  by (auto simp: join_game_def closes_round_def to_sender_def new_player_def Let_def good_simps
      split: option.splits if_splits dest!: insert_player_Some)

lemma start_game_good:
  assumes "db_inv d" and "start_game qs rnd sock gameId rid d = (d', out)"
  shows "good [] d d' \<and> \<not> closes_round out"
  using assms
  by (auto simp: start_game_def closes_round_def to_sender_def Let_def good_simps
      split: option.splits if_splits dest!: insert_round_Some)

lemma next_round_good:
  assumes "db_inv d" and "next_round qs rnd sock gameId rid d = (d', out)"
  shows "good [] d d' \<and> \<not> closes_round out"
  using assms
  by (auto simp: next_round_def closes_round_def to_sender_def Let_def good_simps
      split: option.splits if_splits dest!: insert_round_Some)

lemma remove_player_good:
  assumes "db_inv d" and "remove_player sock gameId target d = (d', out)"
  shows "good [] d d' \<and> \<not> closes_round out"
  using assms
  by (auto simp: remove_player_def closes_round_def to_sender_def Let_def good_simps
      split: option.splits if_splits)

lemma reconnect_game_good:
  assumes "db_inv d" and "reconnect_game sock gameId code name d = (d', out)"
  shows "good [] d d' \<and> \<not> closes_round out"
  using assms
  by (auto simp: reconnect_game_def closes_round_def to_sender_def Let_def good_simps
      split: option.splits if_splits)

lemma disconnect_good:
  assumes "db_inv d" and "disconnect sock d = (d', out)"
  shows "good [] d d' \<and> \<not> closes_round out"
  using assms
  by (auto simp: disconnect_def closes_round_def to_sender_def Let_def good_simps
      split: option.splits if_splits)

lemma cleanupOldGames_good:
  assumes "db_inv d"
  shows "good [] d (cleanupOldGames t d)"
  using assms
  by (auto simp: cleanupOldGames_def Let_def good_simps)

text \<open>Closing a round pays the scoring players of the tally, each of them one point.\<close>

lemma raise_scores_ok:
  "pl_inv ps \<Longrightarrow>
   scores_ok ids ps (map (\<lambda>p. if p_id p \<in> set ids then p\<lparr>score := score p + 1\<rparr> else p) ps)"
  using scores_ok_map [of ps "\<lambda>p. if p_id p \<in> set ids then p\<lparr>score := score p + 1\<rparr> else p" ids]
  by simp

lemma raise_pl_inv:
  "pl_inv ps \<Longrightarrow>
   pl_inv (map (\<lambda>p. if p_id p \<in> set ids then p\<lparr>score := score p + 1\<rparr> else p) ps)"
  using scores_ok_map [of ps "\<lambda>p. if p_id p \<in> set ids then p\<lparr>score := score p + 1\<rparr> else p" ids]
  by simp

lemma distinct_round_players:
  "distinct (map (\<lambda>a. (roundId a, playerId a)) xs) \<Longrightarrow>
   distinct (map playerId (filter Q (filter (\<lambda>a. roundId a = rid) xs)))"
  by (induction xs) (auto simp: image_iff)

lemma distinct_scoringPlayers:
  assumes "distinct (map (\<lambda>a. (roundId a, playerId a)) xs)"
    and "analyzeRoundAnswers rid xs = Some res"
  shows "distinct (scoringPlayers res)"
  using assms distinct_round_players [OF assms(1)]
  by (auto simp: analyzeRoundAnswers_def analyze_def Let_def split: if_splits)

lemma foldl_inc_score_others [simp]:
  "answers (foldl inc_score d ids) = answers d"
  "games (foldl inc_score d ids) = games d"
  "rounds (foldl inc_score d ids) = rounds d"
  by (induction ids arbitrary: d) (simp_all add: inc_score_def)

lemma is_round_completed_simps [simp]:
  "closes_round ((t, RoundCompleted a b c) # xs)"
  "closes_round ((t, RoundCompletedV1 a' b' c' e') # xs)"
  "\<not> closes_round (to_sender sock msg)"
  "\<not> closes_round []"
  by (simp_all add: closes_round_def to_sender_def)

lemma broadcast_tallies_simps [simp]:
  "broadcast_tallies [] = []"
  "broadcast_tallies (to_sender sock msg) = []"
  "broadcast_tallies ((t, RoundCompleted res h ps) # xs) = res # broadcast_tallies xs"
  "broadcast_tallies ((t, RoundCompletedV1 res ps h w) # xs) = res # broadcast_tallies xs"
  "broadcast_tallies ((t, GameCompleted p) # xs) = broadcast_tallies xs"
  "broadcast_tallies ((t, PlayerAnswered a b) # xs) = broadcast_tallies xs"
  "broadcast_tallies ((t, PlayerAnsweredV1 u c) # xs) = broadcast_tallies xs"
  by (simp_all add: broadcast_tallies_def List.map_filter_simps to_sender_def)

lemma broadcast_tallies_append:
  "broadcast_tallies (xs @ ys) = broadcast_tallies xs @ broadcast_tallies ys"
  by (simp add: broadcast_tallies_def List.map_filter_def)

lemma tally_of_None: "tally_of x = None \<longleftrightarrow> \<not> is_round_completed x"
  by (cases x rule: is_round_completed.cases) simp_all

lemma tally_of_Some: "tally_of x = Some res \<Longrightarrow> is_round_completed x"
  using tally_of_None [of x] by auto

lemma broadcast_tallies_Nil: "broadcast_tallies out = [] \<longleftrightarrow> \<not> closes_round out"
  by (induction out)
    (auto simp: broadcast_tallies_def List.map_filter_simps closes_round_def tally_of_None
      split: option.splits dest: tally_of_Some)

text \<open>
  What closing does, in both handlers: with a tally \<open>res\<close> of the round it broadcasts
  \<open>res\<close> once and pays \<open>scoringPlayers res\<close>; with no tally it does neither.  The answers
  stay as they are.
\<close>

lemma close_round_good:
  assumes "db_inv d" and "close_round sock gameId gm r d = (d', out)"
  shows "good (paid_by (analyzeRoundAnswers (r_id r) (answers d))) d d'"
    and "answers d' = answers d"
    and "broadcast_tallies out = (case analyzeRoundAnswers (r_id r) (answers d) of
                                    None \<Rightarrow> [] | Some res \<Rightarrow> [res])"
proof -
  show "answers d' = answers d"
    using assms(2) by (auto simp: close_round_def Let_def split: option.splits)
  show "broadcast_tallies out = (case analyzeRoundAnswers (r_id r) (answers d) of
                                    None \<Rightarrow> [] | Some res \<Rightarrow> [res])"
    using assms(2) by (auto simp: close_round_def Let_def split: option.splits)
  show "good (paid_by (analyzeRoundAnswers (r_id r) (answers d))) d d'"
  proof (cases "analyzeRoundAnswers (r_id r) (answers d)")
    case None
    then show ?thesis using assms by (auto simp: close_round_def good_simps paid_by_def)
  next
    case (Some res)
    show ?thesis
    proof (cases "scoringPlayers res = []")
      case True
      then show ?thesis using assms Some
        by (auto simp: close_round_def Let_def good_simps paid_by_def split: option.splits)
    next
      case False
      then show ?thesis using assms Some
        by (auto simp: close_round_def Let_def good_def db_inv_def paid_by_def
            raise_scores_ok raise_pl_inv split: option.splits)
    qed
  qed
qed

lemma close_round_v1_good:
  assumes "db_inv d" and "close_round_v1 sock gameId gm r d = (d', out)"
  shows "good (paid_by (analyzeRoundAnswers (r_id r) (answers d))) d d'"
    and "answers d' = answers d"
    and "broadcast_tallies out = (case analyzeRoundAnswers (r_id r) (answers d) of
                                    None \<Rightarrow> [] | Some res \<Rightarrow> [res])"
proof -
  show "answers d' = answers d"
    using assms(2) by (auto simp: close_round_v1_def Let_def split: option.splits if_splits)
  show "broadcast_tallies out = (case analyzeRoundAnswers (r_id r) (answers d) of
                                    None \<Rightarrow> [] | Some res \<Rightarrow> [res])"
    using assms(2) by (auto simp: close_round_v1_def Let_def split: option.splits if_splits)
  show "good (paid_by (analyzeRoundAnswers (r_id r) (answers d))) d d'"
  proof (cases "analyzeRoundAnswers (r_id r) (answers d)")
    case None
    then show ?thesis using assms by (auto simp: close_round_v1_def good_simps paid_by_def)
  next
    case (Some res)
    have dist: "distinct (scoringPlayers res)"
      using assms(1) Some by (auto simp: db_inv_def intro: distinct_scoringPlayers)
    have pl: "players (foldl inc_score d (scoringPlayers res))
                = map (\<lambda>p. if p_id p \<in> set (scoringPlayers res)
                           then p\<lparr>score := score p + 1\<rparr> else p) (players d)"
      using assms(1) dist by (intro players_foldl_inc_score) (simp_all add: db_inv_def pl_inv_def)
    show ?thesis using assms Some
      by (auto simp: close_round_v1_def Let_def good_def db_inv_def paid_by_def pl
          raise_scores_ok raise_pl_inv split: if_splits)
  qed
qed

lemma good_trans_same:
  "good paid d1 d2 \<Longrightarrow> players d1 = players d \<Longrightarrow> good paid d d2"
  by (simp add: good_def)

lemma find_in_progress:
  "find (\<lambda>g. g_id g = gid) gs = Some g \<Longrightarrow> status g = InProgress \<Longrightarrow>
   find (in_progress gid) gs = Some g"
  by (induction gs) (auto simp: in_progress_def split: if_splits)

lemma exact_quiet:
  "good [] d d' \<Longrightarrow> \<not> closes_round out \<Longrightarrow> exact req d d' out"
  by (simp add: exact_def scoring_players_def broadcast_tallies_Nil)

lemma submit_answer_exact:
  assumes "db_inv d" and "submit_answer sock gameId text d = (d', out)"
  shows "exact (SubmitAnswer sock gameId text) d d' out"
proof (cases "accepted sock gameId text d")
  case None
  then have "good [] d d' \<and> \<not> closes_round out" using assms
    by (auto simp: submit_answer_def accepted_def Let_def good_simps increment_def
        split: option.splits if_splits)
  then show ?thesis by (simp add: exact_quiet)
next
  case (Some n)
  then obtain g0 p r d2 where
    g0: "find (in_progress gameId) (games d) = Some g0"
    and p: "find (\<lambda>p. p_gameId p = gameId \<and> socketId p = sock) (players d) = Some p"
    and r: "find_round gameId (currentRound g0) d = Some r"
    and ins: "insert_answer (new_answer gameId r p text) d = Some d2"
    by (auto simp: accepted_def split: option.splits if_splits)
  let ?gs = "update_first (in_progress gameId) increment (games d)"
  let ?d2 = "d2\<lparr>games := ?gs\<rparr>"
  from insert_answer_Some' [OF ins] have d2: "d2 = d\<lparr>answers := answers d @ [new_answer gameId r p text]\<rparr>"
    and fresh: "(roundId (new_answer gameId r p text), playerId (new_answer gameId r p text))
                  \<notin> (\<lambda>b. (roundId b, playerId b)) ` set (answers d)" by simp_all
  have inv2: "db_inv ?d2" using assms(1) fresh by (simp add: db_inv_def d2)
  have pl2: "players ?d2 = players d" by (simp add: d2)
  have cur: "current_round_id gameId d = Some (r_id r)"
    by (simp add: current_round_id_def g0 r)
  have "\<exists>res. analyzeRoundAnswers (r_id r) (answers ?d2) = Some res" by (simp add: d2)
  then obtain res where res: "analyzeRoundAnswers (r_id r) (answers ?d2) = Some res" by blast
  show ?thesis
  proof (cases "playersAnswered (increment g0) \<ge> connected_count gameId ?d2")
    case True
    obtain d3 out' where cr: "close_round sock gameId (increment g0) r ?d2 = (d3, out')"
      by (cases "close_round sock gameId (increment g0) r ?d2")
    have res': "d' = d3" "out = [(ToRoom (roomCode (increment g0)),
        PlayerAnswered (playersAnswered (increment g0)) (connected_count gameId ?d2))] @ out'"
      using assms(2) g0 p r ins True cr
      by (simp_all add: submit_answer_def Let_def increment_def d2)
    note c = close_round_good [OF inv2 cr]
    have bt: "broadcast_tallies out = [res]" unfolding res'(2) using c(3) res by simp
    then have cl: "closes_round out" using broadcast_tallies_Nil [of out] by simp
    have rr: "round_result (SubmitAnswer sock gameId text) d d' = Some res"
      using cur res c(2) by (simp add: res'(1))
    have "good (scoringPlayers res) ?d2 d3" using c(1) res by (simp add: paid_by_def)
    then have "good (scoringPlayers res) d d'" unfolding res'(1) using pl2 by (rule good_trans_same)
    then show ?thesis unfolding exact_def scoring_players_def rr using cl bt by simp
  next
    case False
    have res': "d' = ?d2 \<and> \<not> closes_round out"
      using assms(2) g0 p r ins False
      by (auto simp: submit_answer_def Let_def increment_def d2)
    have "good [] d ?d2" using inv2 assms(1) by (simp add: good_simps pl2)
    then show ?thesis using res' by (intro exact_quiet) simp_all
  qed
qed

lemma submit_answer_v1_exact:
  assumes "db_inv d" and "submit_answer_v1 sock gameId text d = (d', out)"
  shows "exact (SubmitAnswer sock gameId text) d d' out"
proof (cases "accepted_v1 sock gameId text d")
  case None
  then have "good [] d d' \<and> \<not> closes_round out" using assms
    by (auto simp: submit_answer_v1_def accepted_v1_def Let_def good_simps increment_def
        split: option.splits if_splits)
  then show ?thesis by (simp add: exact_quiet)
next
  case (Some n)
  then obtain g0 p r d1 where
    g0: "find (\<lambda>g. g_id g = gameId) (games d) = Some g0" "status g0 = InProgress"
    and p: "find (\<lambda>p. p_gameId p = gameId \<and> socketId p = sock) (players d) = Some p"
    and r: "find_round gameId (currentRound g0) d = Some r"
    and ins: "insert_answer (new_answer gameId r p text) d = Some d1"
    by (auto simp: accepted_v1_def split: option.splits if_splits)
  let ?gm = "increment g0"
  let ?d2 = "d1\<lparr>games := update_first (\<lambda>g. g_id g = g_id ?gm)
                 (\<lambda>g. g\<lparr>playersAnswered := playersAnswered ?gm\<rparr>) (games d1)\<rparr>"
  from insert_answer_Some' [OF ins] have d1: "d1 = d\<lparr>answers := answers d @ [new_answer gameId r p text]\<rparr>"
    and fresh: "(roundId (new_answer gameId r p text), playerId (new_answer gameId r p text))
                  \<notin> (\<lambda>b. (roundId b, playerId b)) ` set (answers d)" by simp_all
  have inv2: "db_inv ?d2" using assms(1) fresh by (simp add: db_inv_def d1)
  have pl2: "players ?d2 = players d" by (simp add: d1)
  have cur: "current_round_id gameId d = Some (r_id r)"
    by (simp add: current_round_id_def find_in_progress [OF g0] r)
  have "\<exists>res. analyzeRoundAnswers (r_id r) (answers ?d2) = Some res" by (simp add: d1)
  then obtain res where res: "analyzeRoundAnswers (r_id r) (answers ?d2) = Some res" by blast
  show ?thesis
  proof (cases "playersAnswered ?gm = int (length (players_of gameId ?d2))")
    case True
    obtain d3 out' where cr: "close_round_v1 sock gameId ?gm r ?d2 = (d3, out')"
      by (cases "close_round_v1 sock gameId ?gm r ?d2")
    have res': "d' = d3" "out = [(ToRoom (roomCode ?gm),
        PlayerAnsweredV1 (username p) (playersAnswered ?gm))] @ out'"
      using assms(2) g0 p r ins True cr
      by (simp_all add: submit_answer_v1_def Let_def)
    note c = close_round_v1_good [OF inv2 cr]
    have bt: "broadcast_tallies out = [res]" unfolding res'(2) using c(3) res by simp
    then have cl: "closes_round out" using broadcast_tallies_Nil [of out] by simp
    have rr: "round_result (SubmitAnswer sock gameId text) d d' = Some res"
      using cur res c(2) by (simp add: res'(1))
    have "good (scoringPlayers res) ?d2 d3" using c(1) res by (simp add: paid_by_def)
    then have "good (scoringPlayers res) d d'" unfolding res'(1) using pl2 by (rule good_trans_same)
    then show ?thesis unfolding exact_def scoring_players_def rr using cl bt by simp
  next
    case False
    have res': "d' = ?d2" "out = [(ToRoom (roomCode ?gm),
        PlayerAnsweredV1 (username p) (playersAnswered ?gm))]"
      using assms(2) g0 p r ins False
      by (simp_all add: submit_answer_v1_def Let_def)
    have "good [] d ?d2" using inv2 assms(1) by (simp add: good_simps pl2)
    then show ?thesis unfolding res' by (intro exact_quiet) simp_all
  qed
qed

lemma step_exact:
  assumes "db_inv d" and "step v1 qs req d = Some (d', out)"
  shows "exact req d d' out"
proof (cases req)
  case (CreateGame sock name draws gid pid now)
  then show ?thesis using assms create_game_good [of d v1 sock name draws gid pid now d' out]
    by (simp add: exact_quiet)
next
  case (JoinGame sock code name pid)
  then show ?thesis using assms join_game_good [of d sock code name pid d' out]
    by (simp add: exact_quiet)
next
  case (StartGame sock gameId rnd rid)
  then show ?thesis using assms start_game_good [of d qs rnd sock gameId rid d' out]
    by (simp add: exact_quiet)
next
  case (SubmitAnswer sock gameId t)
  then show ?thesis using assms submit_answer_exact [of d sock gameId t d' out]
      submit_answer_v1_exact [of d sock gameId t d' out]
    by (simp split: if_splits)
next
  case (NextRoundReq sock gameId rnd rid)
  then show ?thesis using assms next_round_good [of d qs rnd sock gameId rid d' out]
    by (simp add: exact_quiet)
next
  case (RemovePlayer sock gameId target)
  then show ?thesis using assms remove_player_good [of d sock gameId target d' out]
    by (simp add: exact_quiet)
next
  case (ReconnectGame sock gameId code name)
  then show ?thesis using assms reconnect_game_good [of d sock gameId code name d' out]
    by (auto simp: exact_quiet good_simps split: if_splits)
next
  case (Disconnect sock)
  then show ?thesis using assms disconnect_good [of d sock d' out]
    by (simp add: exact_quiet)
next
  case (Cleanup t)
  then show ?thesis using assms cleanupOldGames_good [of d t]
    by (auto simp: exact_quiet)
qed

lemma db_inv_empty: "db_inv empty_db"
  by (simp add: db_inv_def pl_inv_def empty_db_def)

lemma reachable_db_inv: "reachable v1 qs d \<Longrightarrow> db_inv d"
proof (induction rule: reachable.induct)
  case reachable_empty
  show ?case by (rule db_inv_empty)
next
  case (reachable_step d req d' out)
  then show ?case using step_exact [of d v1 qs req d' out] by (simp add: exact_def good_def)
qed

lemma reachable_run: "reachable v1 qs d \<Longrightarrow> reachable v1 qs (run v1 qs reqs d)"
proof (induction reqs arbitrary: d)
  case Nil
  then show ?case by simp
next
  case (Cons req reqs)
  show ?case
  proof (cases "step v1 qs req d")
    case None
    then show ?thesis using Cons.prems by simp
  next
    case (Some a)
    obtain d' out where a: "a = (d', out)" by (cases a)
    have "reachable v1 qs d'" using Cons.prems Some a by (auto intro: reachable_step)
    then show ?thesis using Cons.IH [of d'] Some a by simp
  qed
qed

text \<open>
  Claim C10.  In every store that the server can reach, whatever the next request and
  whichever of the two servers handles it: no score after the request is negative; a player
  created by the request has score 0; a player that existed before has the score it had,
  plus exactly 1 when the request closed a round and the player is one of the scoring
  players of that round's tally, and plus nothing in every other case.  The tally is the
  one of the current round of the game over the answers stored, and it is the one that the
  request broadcast.
\<close>

theorem scores_paid_exactly:
  assumes "reachable v1 qs d" and "step v1 qs req d = Some (d', out)"
  shows "scores_ok (scoring_players req d d' out) (players d) (players d')
         \<and> map Some (broadcast_tallies out)
             = (if closes_round out then [round_result req d d'] else [])"
  using step_exact [OF reachable_db_inv [OF assms(1)] assms(2)] by (simp add: exact_def good_def)

theorem scores_paid_exactly_witness:
  "reachable False [''q1''] (run False [''q1''] ex_requests empty_db)
   \<and> map score (players (run False [''q1''] ex_requests empty_db)) = [0, 0, 0]
   \<and> map score (players (run False [''q1''] (ex_requests @ [ex_last_request]) empty_db)) = [1, 1, 0]
   \<and> scores_ok [''p1'', ''p2''] (players (run False [''q1''] ex_requests empty_db))
        (players (run False [''q1''] (ex_requests @ [ex_last_request]) empty_db))
   \<and> reachable True [''q1''] (run True [''q1''] ex_requests empty_db)
   \<and> map score (players (run True [''q1''] ex_requests empty_db)) = [0, 0, 0]
   \<and> map score (players (run True [''q1''] (ex_requests @ [ex_last_request]) empty_db)) = [1, 1, 0]
   \<and> scores_ok [''p1'', ''p2''] (players (run True [''q1''] ex_requests empty_db))
        (players (run True [''q1''] (ex_requests @ [ex_last_request]) empty_db))"
proof -
  let ?d = "run False [''q1''] ex_requests empty_db"
  let ?r = "step False [''q1''] ex_last_request ?d"
  let ?e = "run True [''q1''] ex_requests empty_db"
  let ?s = "step True [''q1''] ex_last_request ?e"
  have reach: "reachable False [''q1''] ?d" by (rule reachable_run [OF reachable_empty])
  have reach1: "reachable True [''q1''] ?e" by (rule reachable_run [OF reachable_empty])
  have st: "?r = Some (fst (the ?r), snd (the ?r))" by (simp add: ex_last_request_def)
  have st1: "?s = Some (fst (the ?s), snd (the ?s))" by (simp add: ex_last_request_def)
  have nxt: "run False [''q1''] (ex_requests @ [ex_last_request]) empty_db = fst (the ?r)"
    by code_simp
  have nxt1: "run True [''q1''] (ex_requests @ [ex_last_request]) empty_db = fst (the ?s)"
    by code_simp
  have sp: "scoring_players ex_last_request ?d (fst (the ?r)) (snd (the ?r)) = [''p1'', ''p2'']"
    by code_simp
  have sp1: "scoring_players ex_last_request ?e (fst (the ?s)) (snd (the ?s)) = [''p1'', ''p2'']"
    by code_simp
  have s0: "map score (players ?d) = [0, 0, 0]" by code_simp
  have s1: "map score (players (fst (the ?r))) = [1, 1, 0]" by code_simp
  have t0: "map score (players ?e) = [0, 0, 0]" by code_simp
  have t1: "map score (players (fst (the ?s))) = [1, 1, 0]" by code_simp
  show ?thesis
    using scores_paid_exactly [OF reach st] scores_paid_exactly [OF reach1 st1]
      reach reach1 s0 s1 t0 t1
    unfolding nxt nxt1 sp sp1 by simp
qed


end
